theory Spec2Isabelle
  imports Main "HOL-Library.Sublist"
begin

section \<open>Go values used by the automation engine\<close>

text \<open>
  Go strings are byte strings: \<open>string\<close> (a list of 8-bit \<open>char\<close>). Go's \<open>error\<close> results are
  sums with \<open>Inl\<close> for a non-nil error; a run-time panic is a value of its own type. Go's \<open>int\<close>
  is the 64-bit signed integer of the desktop targets the application is built for; it is
  modelled as \<open>int\<close> with the range written out where a library call checks it.
\<close>

datatype error = ErrSyntax | ErrRange | ErrOther string | ErrWrap string error

datatype panic = IndexOutOfRange | NilDereference | IntnArgument | MustFailed

definition maxInt :: int where
  "maxInt = 2 ^ 63 - 1"

definition minInt :: int where
  "minInt = - (2 ^ 63)"

subsection \<open>The \<open>strings\<close> and \<open>strconv\<close> functions the source calls\<close>

text \<open>
  \<open>strings.Trim(s, cutset)\<close> removes every leading and every trailing byte of \<open>s\<close> that occurs
  in \<open>cutset\<close>.
\<close>

definition Trim :: "string \<Rightarrow> string \<Rightarrow> string" where
  "Trim s cutset =
     rev (dropWhile (\<lambda>c. c \<in> set cutset) (rev (dropWhile (\<lambda>c. c \<in> set cutset) s)))"

text \<open>
  \<open>strings.Split(s, sep)\<close> for a one-byte separator: the pieces between the separators, in
  order, empty pieces included; a string without separator (the empty string too) gives one
  piece.
\<close>

fun Split :: "string \<Rightarrow> char \<Rightarrow> string list" where
  "Split [] sep = [[]]"
| "Split (c # cs) sep =
     (if c = sep then [] # Split cs sep
      else (case Split cs sep of
              [] \<Rightarrow> [[c]]
            | w # ws \<Rightarrow> (c # w) # ws))"

text \<open>
  \<open>strconv.Atoi(s)\<close> is \<open>ParseInt(s, 10, 0)\<close>: an optional sign, then one or more decimal
  digits, accumulated left to right (\<open>n = n*10 + d\<close>); a string of another shape is a syntax
  error, a value outside the \<open>int\<close> range a range error.
\<close>

definition isDigit :: "char \<Rightarrow> bool" where
  "isDigit c = (48 \<le> (of_char c :: nat) \<and> (of_char c :: nat) \<le> 57)"

definition digitVal :: "char \<Rightarrow> nat" where
  "digitVal c = (of_char c :: nat) - 48"

fun ParseUint :: "nat \<Rightarrow> string \<Rightarrow> nat option" where
  "ParseUint n [] = Some n"
| "ParseUint n (c # cs) =
     (if isDigit c then ParseUint (n * 10 + digitVal c) cs else None)"

definition Atoi :: "string \<Rightarrow> error + int" where
  "Atoi s =
     (if s = [] then Inl ErrSyntax
      else
        let neg = (hd s = CHR ''-'');
            ds = (if hd s = CHR ''+'' \<or> hd s = CHR ''-'' then tl s else s)
        in if ds = [] then Inl ErrSyntax
           else (case ParseUint 0 ds of
                   None \<Rightarrow> Inl ErrSyntax
                 | Some un \<Rightarrow>
                     if \<not> neg \<and> int un > maxInt then Inl ErrRange
                     else if neg \<and> - int un < minInt then Inl ErrRange
                     else Inr (if neg then - int un else int un)))"

text \<open>
  \<open>strconv.Itoa(i)\<close>: the decimal digits of \<open>i\<close>, most significant first, after a minus sign
  when \<open>i\<close> is negative.
\<close>

definition digitChar :: "nat \<Rightarrow> char" where
  "digitChar d = char_of (48 + d)"

function FormatUint :: "nat \<Rightarrow> string" where
  "FormatUint n = (if n < 10 then [digitChar n] else FormatUint (n div 10) @ [digitChar (n mod 10)])"
  by pat_completeness auto
termination
  by (relation "measure (\<lambda>n. n)") auto

definition Itoa :: "int \<Rightarrow> string" where
  "Itoa i = (if i < 0 then CHR ''-'' # FormatUint (nat (- i)) else FormatUint (nat i))"

text \<open>
  \<open>strings.Contains(s, substr)\<close>: \<open>substr\<close> occurs in \<open>s\<close> as a contiguous run of bytes.
\<close>

definition HasPrefix :: "string \<Rightarrow> string \<Rightarrow> bool" where
  "HasPrefix s p = (take (length p) s = p)"

fun Contains :: "string \<Rightarrow> string \<Rightarrow> bool" where
  "Contains [] substr = (substr = [])"
| "Contains (c # cs) substr = (HasPrefix (c # cs) substr \<or> Contains cs substr)"

text \<open>
  \<open>strings.ToLower\<close> and \<open>strings.TrimSpace\<close> follow the case mappings and the white-space
  property of Unicode. The resolver takes the two functions as a parameter, so that every
  statement about it holds for what the library does with any string, ASCII or not.
\<close>

record strings =
  ToLower :: "string \<Rightarrow> string"
  TrimSpace :: "string \<Rightarrow> string"

text \<open>
  On a string of ASCII bytes the two functions are the following: the letters \<open>A\<close> to \<open>Z\<close>
  are mapped to \<open>a\<close> to \<open>z\<close>, and the white space trimmed is tab, line feed, vertical tab,
  form feed, carriage return and space. \<open>asciiStrings\<close> stands for the library where a
  statement is evaluated at concrete ASCII strings.
\<close>

definition toLowerByte :: "char \<Rightarrow> char" where
  "toLowerByte c =
     (if 65 \<le> (of_char c :: nat) \<and> (of_char c :: nat) \<le> 90 then char_of ((of_char c :: nat) + 32)
      else c)"

definition asciiToLower :: "string \<Rightarrow> string" where
  "asciiToLower s = map toLowerByte s"

definition isSpace :: "char \<Rightarrow> bool" where
  "isSpace c = ((9 \<le> (of_char c :: nat) \<and> (of_char c :: nat) \<le> 13) \<or> (of_char c :: nat) = 32)"

definition asciiTrimSpace :: "string \<Rightarrow> string" where
  "asciiTrimSpace s = rev (dropWhile isSpace (rev (dropWhile isSpace s)))"

definition asciiStrings :: strings where
  "asciiStrings = \<lparr>ToLower = asciiToLower, TrimSpace = asciiTrimSpace\<rparr>"

section \<open>Job discovery: the identifier of a posting link\<close>

text \<open>
  \<open>url.URL\<close>, with the components a posting link can carry. \<open>url.Parse\<close> belongs to Go's
  standard library; \<open>ExtractJobID\<close> takes it as a parameter, so that every statement below holds
  for whatever the parser returns.
\<close>

record URL =
  Scheme :: string
  Host :: string
  Path :: string
  RawQuery :: string
  Fragment :: string

text \<open>
  \<open>ExtractJobID\<close>: parse the link, trim the slashes around the path, split it at the slashes
  and convert the segment at index 2. The guard before the index tests \<open>len(segments) < 2\<close>;
  indexing a slice of two segments at 2 is a run-time panic.
\<close>

definition ExtractJobID :: "(string \<Rightarrow> error + URL) \<Rightarrow> string \<Rightarrow> panic + (int \<times> bool)" where
  "ExtractJobID url_Parse href =
     (case url_Parse href of
        Inl err \<Rightarrow> Inr (0, False)
      | Inr parsedURL \<Rightarrow>
          (let segments = Split (Trim (Path parsedURL) ''/'') (CHR ''/'')
           in if length segments < 2 then Inr (0, False)
              else if length segments \<le> 2 then Inl IndexOutOfRange
              else (let jobIDStr = segments ! 2
                    in case Atoi jobIDStr of
                         Inl err \<Rightarrow> Inr (0, False)
                       | Inr jobID \<Rightarrow> Inr (jobID, True))))"

text \<open>
  A parser given by a finite table of links and the URLs \<open>url.Parse\<close> returns for them; a
  link outside the table is a parse error. It stands for \<open>url.Parse\<close> where a statement is
  evaluated at concrete links.
\<close>

definition parseTable :: "(string \<times> URL) list \<Rightarrow> string \<Rightarrow> error + URL" where
  "parseTable rows href =
     (case map_of rows href of
        None \<Rightarrow> Inl (ErrOther ''parse'')
      | Some u \<Rightarrow> Inr u)"

definition pathURL :: "string \<Rightarrow> URL" where
  "pathURL p = \<lparr>Scheme = [], Host = [], Path = p, RawQuery = [], Fragment = []\<rparr>"

section \<open>The field value resolver\<close>

text \<open>
  \<open>store.LinkedInProfile\<close>, without its two time stamps. The resolver receives a pointer to
  the stored profile; the callers pass the profile they loaded, so the model takes the record.
\<close>

record LinkedInProfile =
  ID :: int
  Email :: string
  Password :: string
  PhoneNumber :: string
  Positions :: "string list"
  Locations :: "string list"
  RemoteOnly :: bool
  ProfileURL :: string
  YearsExperience :: int
  UserCity :: string
  UserState :: string
  ZipCode :: string
  DesiredSalary :: int

text \<open>
  The injected fallback \<open>func(label, typ string) (string, error)\<close>, a pure function here; the
  parameter may be nil (\<open>None\<close>). Both results are kept, as Go returns them.
\<close>

type_synonym fallback = "string \<Rightarrow> string \<Rightarrow> string \<times> error option"

fun containsAny :: "string \<Rightarrow> string list \<Rightarrow> bool" where
  "containsAny s [] = False"
| "containsAny s (kw # kws) = (if Contains s kw then True else containsAny s kws)"

text \<open>
  \<open>ChooseValue\<close>, with the two functions of the \<open>strings\<close> package it calls as its first
  parameter. The \<open>switch\<close> takes the first case that holds.
\<close>

definition ChooseValue ::
  "strings \<Rightarrow> string \<Rightarrow> string \<Rightarrow> LinkedInProfile \<Rightarrow> fallback option \<Rightarrow> string" where
  "ChooseValue lib labelText inputType p llmFallback =
     (let l = ToLower lib (TrimSpace lib labelText);
          t = ToLower lib (TrimSpace lib inputType)
      in if containsAny l [''phone'', ''mobile'', ''telephone'', ''contact''] then PhoneNumber p
         else if containsAny l [''city'', ''location'', ''reside''] then UserCity p @ '', '' @ UserState p
         else if Contains l ''have you ever worked'' then ''No''
         else if Contains l ''state'' then UserState p
         else if containsAny l [''salary'', ''wage'', ''income'', ''compensation'']
           then Itoa (DesiredSalary p)
         else if Contains l ''experience'' \<and> Contains l ''year'' then Itoa (YearsExperience p)
         else if containsAny l [''linkedin'', ''linked-in'', ''linked in''] then ProfileURL p
         else if t = ''number'' then Itoa (YearsExperience p)
         else (case llmFallback of
                 None \<Rightarrow> Itoa (YearsExperience p)
               | Some f \<Rightarrow>
                   (case f labelText inputType of
                      (ans, err) \<Rightarrow>
                        if err = None \<and> TrimSpace lib ans \<noteq> [] then TrimSpace lib ans
                        else Itoa (YearsExperience p))))"

subsection \<open>The priority cascade as the specification words it\<close>

text \<open>
  Case-insensitive substring matching: a keyword, which is in lower case, matches a label
  when it occurs in the label after lower-casing; the label is taken without the white space
  around it, which no keyword has. \<open>labelRule\<close> is the seven label rules in their order: it
  gives the number of the first rule that matches and its answer.
\<close>

definition labelHas :: "strings \<Rightarrow> string \<Rightarrow> string \<Rightarrow> bool" where
  "labelHas lib label kw = sublist kw (ToLower lib (TrimSpace lib label))"

fun labelHasAny :: "strings \<Rightarrow> string \<Rightarrow> string list \<Rightarrow> bool" where
  "labelHasAny lib label [] = False"
| "labelHasAny lib label (kw # kws) = (labelHas lib label kw \<or> labelHasAny lib label kws)"

definition labelRule :: "strings \<Rightarrow> string \<Rightarrow> LinkedInProfile \<Rightarrow> (nat \<times> string) option" where
  "labelRule lib label p =
     (if labelHasAny lib label [''phone'', ''mobile'', ''telephone'', ''contact'']
        then Some (1, PhoneNumber p)
      else if labelHasAny lib label [''city'', ''location'', ''reside'']
        then Some (2, UserCity p @ '', '' @ UserState p)
      else if labelHas lib label ''have you ever worked'' then Some (3, ''No'')
      else if labelHas lib label ''state'' then Some (4, UserState p)
      else if labelHasAny lib label [''salary'', ''wage'', ''income'', ''compensation'']
        then Some (5, Itoa (DesiredSalary p))
      else if labelHas lib label ''experience'' \<and> labelHas lib label ''year''
        then Some (6, Itoa (YearsExperience p))
      else if labelHasAny lib label [''linkedin'', ''linked-in'', ''linked in'']
        then Some (7, ProfileURL p)
      else None)"

text \<open>
  Rules 8 to 10 as worded: the input type equal to \<open>number\<close>, then a fallback answer that is
  non-empty and came without error, then the years of experience.
\<close>

definition resolveAsWorded ::
  "strings \<Rightarrow> string \<Rightarrow> string \<Rightarrow> LinkedInProfile \<Rightarrow> fallback option \<Rightarrow> string" where
  "resolveAsWorded lib label inputType p fb =
     (case labelRule lib label p of
        Some (n, v) \<Rightarrow> v
      | None \<Rightarrow>
          if inputType = ''number'' then Itoa (YearsExperience p)
          else (case fb of
                  None \<Rightarrow> Itoa (YearsExperience p)
                | Some f \<Rightarrow>
                    (case f label inputType of
                       (ans, err) \<Rightarrow>
                         if ans \<noteq> [] \<and> err = None then ans else Itoa (YearsExperience p))))"

text \<open>
  The same cascade with the two normalisations the source applies: the input type is compared
  after trimming and lower-casing, and the fallback answer is trimmed before it is tested and
  used.
\<close>

definition resolveNormalised ::
  "strings \<Rightarrow> string \<Rightarrow> string \<Rightarrow> LinkedInProfile \<Rightarrow> fallback option \<Rightarrow> string" where
  "resolveNormalised lib label inputType p fb =
     (case labelRule lib label p of
        Some (n, v) \<Rightarrow> v
      | None \<Rightarrow>
          if ToLower lib (TrimSpace lib inputType) = ''number'' then Itoa (YearsExperience p)
          else (case fb of
                  None \<Rightarrow> Itoa (YearsExperience p)
                | Some f \<Rightarrow>
                    (case f label inputType of
                       (ans, err) \<Rightarrow>
                         if TrimSpace lib ans \<noteq> [] \<and> err = None then TrimSpace lib ans
                         else Itoa (YearsExperience p))))"

text \<open>
  The keywords of the source are plain: non-empty, in lower case, without white space at
  either end. For ASCII text and a plain keyword, matching the trimmed label is matching the
  label as it is (lemma \<open>ascii_labelHas\<close> below).
\<close>

definition plainKeyword :: "string \<Rightarrow> bool" where
  "plainKeyword kw =
     (kw \<noteq> [] \<and> \<not> isSpace (hd kw) \<and> \<not> isSpace (last kw) \<and> asciiToLower kw = kw)"

subsection \<open>Base-10 integers, for the posting link\<close>

text \<open>
  A base-10 integer literal is an optional sign followed by one or more decimal digits; its
  value is the positional sum of the digits, negated after a minus sign.
\<close>

definition stripSign :: "string \<Rightarrow> string" where
  "stripSign s = (if s \<noteq> [] \<and> (hd s = CHR ''+'' \<or> hd s = CHR ''-'') then tl s else s)"

definition isBase10 :: "string \<Rightarrow> bool" where
  "isBase10 s = (stripSign s \<noteq> [] \<and> list_all isDigit (stripSign s))"

fun digitsValue :: "string \<Rightarrow> nat" where
  "digitsValue [] = 0"
| "digitsValue (c # cs) = digitVal c * 10 ^ length cs + digitsValue cs"

definition base10Value :: "string \<Rightarrow> int" where
  "base10Value s =
     (if s \<noteq> [] \<and> hd s = CHR ''-'' then - int (digitsValue (stripSign s))
      else int (digitsValue (stripSign s)))"

definition fitsInt :: "int \<Rightarrow> bool" where
  "fitsInt i = (minInt \<le> i \<and> i \<le> maxInt)"

section \<open>The browser session\<close>

text \<open>
  The engine drives a browser through the rod library. A session is a page state \<open>'s\<close> and
  the operations the source calls on it, each taking the page state and returning its result
  with the next page state: every call may change the page, since the page renders while the
  engine waits. \<open>'e\<close> is the type of the handles of elements and frames.

  A call may halt the engine instead of returning. A \<open>Must\<close> call panics where the plain call
  would return an error, and it may wait without end (for the load event, for an element to
  become clickable): its result is \<open>Inl\<close> of the halt, or \<open>Inr\<close> of its value. A plain call
  returns its error. The search for an element retries until the element is there: under
  \<open>page.Timeout\<close> it gives up with an error (\<open>Element\<close> and \<open>ElementX\<close>, with the timeout in
  milliseconds), and without a timeout it does not return while the element is absent and
  the page stays open (\<open>ElementWait\<close> on the page, \<open>ElementIn\<close> on a frame: the result
  \<open>None\<close>). The helpers of the fill pass that only read or type into one element (\<open>isEmpty\<close>,
  \<open>isRequired\<close>, \<open>getBestLabelText\<close>, \<open>attr\<close>, \<open>clearAndType\<close>) and \<open>goquery\<close>'s document
  parser are operations of the session as well, as are the random source and the two
  functions of the \<open>strings\<close> package that fold case and trim.
\<close>

datatype halt = Panic panic | Blocks

record ('s, 'e) rod =
  MustWaitLoad :: "'s \<Rightarrow> (halt + unit) \<times> 's"
  Element :: "nat \<Rightarrow> string \<Rightarrow> 's \<Rightarrow> (error + 'e) \<times> 's"
  ElementX :: "nat \<Rightarrow> string \<Rightarrow> 's \<Rightarrow> (error + 'e) \<times> 's"
  ElementWait :: "string \<Rightarrow> 's \<Rightarrow> (error + 'e) option \<times> 's"
  MustElements :: "string \<Rightarrow> 's \<Rightarrow> (halt + 'e list) \<times> 's"
  MustElementsX :: "string \<Rightarrow> 's \<Rightarrow> (halt + 'e list) \<times> 's"
  MustFrame :: "'e \<Rightarrow> 's \<Rightarrow> (halt + 'e) \<times> 's"
  Has :: "'e \<Rightarrow> string \<Rightarrow> 's \<Rightarrow> 'e option \<times> 's"
  HasX :: "'e \<Rightarrow> string \<Rightarrow> 's \<Rightarrow> 'e option \<times> 's"
  ElementIn :: "'e \<Rightarrow> string \<Rightarrow> 's \<Rightarrow> (error + 'e) option \<times> 's"
  MustElementsXIn :: "'e \<Rightarrow> string \<Rightarrow> 's \<Rightarrow> (halt + 'e list) \<times> 's"
  MustShadowRoot :: "'e \<Rightarrow> 's \<Rightarrow> (halt + 'e option) \<times> 's"
  MustAttribute :: "'e \<Rightarrow> string \<Rightarrow> 's \<Rightarrow> (halt + string option) \<times> 's"
  MustClick :: "'e \<Rightarrow> 's \<Rightarrow> (halt + unit) \<times> 's"
  MustNavigate :: "string \<Rightarrow> 's \<Rightarrow> (halt + unit) \<times> 's"
  ScrollIntoView :: "'e \<Rightarrow> 's \<Rightarrow> error option \<times> 's"
  Focus :: "'e \<Rightarrow> 's \<Rightarrow> error option \<times> 's"
  KeyboardPress :: "'e \<Rightarrow> 's \<Rightarrow> error option \<times> 's"
  Hover :: "'e \<Rightarrow> 's \<Rightarrow> error option \<times> 's"
  MouseScroll :: "'s \<Rightarrow> error option \<times> 's"
  HTML :: "'s \<Rightarrow> (error + string) \<times> 's"
  NewDocumentFromReader :: "string \<Rightarrow> error option"
  Sleep :: "nat \<Rightarrow> nat \<Rightarrow> 's \<Rightarrow> unit \<times> 's"
  Intn :: "nat \<Rightarrow> 's \<Rightarrow> nat \<times> 's"
  url_Parse :: "string \<Rightarrow> error + URL"
  isEmpty :: "'e \<Rightarrow> 's \<Rightarrow> bool \<times> 's"
  isRequired :: "'e \<Rightarrow> 's \<Rightarrow> bool \<times> 's"
  getBestLabelText :: "'e \<Rightarrow> 'e \<Rightarrow> 's \<Rightarrow> string \<times> 's"
  attr :: "'e \<Rightarrow> string \<Rightarrow> 's \<Rightarrow> string \<times> 's"
  clearAndType :: "'e \<Rightarrow> string \<Rightarrow> 's \<Rightarrow> error option \<times> 's"
  go_strings :: strings

text \<open>
  \<open>Sleep lo hi\<close> is a pause of between \<open>lo\<close> and \<open>hi\<close> milliseconds (\<open>time.Sleep\<close> and
  \<open>sleepRand\<close>).

  A run of the engine carries the page state and a trace: the list of the events below, in
  the order they happen. The trace is not in the source; it records which closure ran when,
  so that statements about the order of the engine's steps can be made.
\<close>

record locator =
  kind :: string
  q :: string

datatype event =
    IterationStarts nat
  | HandleInlineErrorsRuns
  | PresenceChecked locator bool
  | ActionAttempted locator
  | SearchOpened int

type_synonym 's run = "'s \<times> event list"

type_synonym ('a, 's) prog = "'s run \<Rightarrow> (halt + 'a) \<times> 's run"

definition ret :: "'a \<Rightarrow> ('a, 's) prog" where
  "ret a s = (Inr a, s)"

definition raise :: "panic \<Rightarrow> ('a, 's) prog" where
  "raise p s = (Inl (Panic p), s)"

text \<open>Sequencing: a halt ends the computation where it happens.\<close>

definition andThen :: "('a, 's) prog \<Rightarrow> ('a \<Rightarrow> ('b, 's) prog) \<Rightarrow> ('b, 's) prog" where
  "andThen m f s =
     (case m s of
        (Inl p, s') \<Rightarrow> (Inl p, s')
      | (Inr a, s') \<Rightarrow> f a s')"

definition must :: "('s \<Rightarrow> (halt + 'a) \<times> 's) \<Rightarrow> ('a, 's) prog" where
  "must m s = (case m (fst s) of (r, pg) \<Rightarrow> (r, (pg, snd s)))"

definition waits :: "('s \<Rightarrow> 'a option \<times> 's) \<Rightarrow> ('a, 's) prog" where
  "waits m s =
     (case m (fst s) of
        (None, pg) \<Rightarrow> (Inl Blocks, (pg, snd s))
      | (Some a, pg) \<Rightarrow> (Inr a, (pg, snd s)))"

definition plain :: "('s \<Rightarrow> 'a \<times> 's) \<Rightarrow> ('a, 's) prog" where
  "plain m s = (case m (fst s) of (a, pg) \<Rightarrow> (Inr a, (pg, snd s)))"

definition emit :: "event \<Rightarrow> (unit, 's) prog" where
  "emit e s = (Inr (), (fst s, snd s @ [e]))"

section \<open>The application form engine\<close>

definition nextSel :: string where
  "nextSel = ''button[aria-label='' @ [CHR 0x27] @ ''Continue to next step'' @ [CHR 0x27] @ '']''"

definition reviewSel :: string where
  "reviewSel = ''button[aria-label='' @ [CHR 0x27] @ ''Review your application'' @ [CHR 0x27] @ '']''"

definition submitSel :: string where
  "submitSel = ''button[aria-label='' @ [CHR 0x27] @ ''Submit application'' @ [CHR 0x27] @ '']''"

definition errorMessageSel :: string where
  "errorMessageSel = ''.artdeco-inline-feedback__icon''"

definition followLabelSel :: string where
  "followLabelSel = ''label[for='' @ [CHR 0x27] @ ''follow-company-checkbox'' @ [CHR 0x27] @ '']''"

definition buttons :: "locator list" where
  "buttons =
     [\<lparr>kind = ''css'', q = nextSel\<rparr>,
      \<lparr>kind = ''css'', q = reviewSel\<rparr>,
      \<lparr>kind = ''css'', q = followLabelSel\<rparr>,
      \<lparr>kind = ''css'', q = submitSel\<rparr>]"

definition errorLoc :: locator where
  "errorLoc = \<lparr>kind = ''css'', q = errorMessageSel\<rparr>"

subsection \<open>The fill pass\<close>

definition textInputXPath :: string where
  "textInputXPath =
     ''//*[starts-with(@id, '' @ [CHR 0x27] @
     ''single-line-text-form-component-formElement-urn-li-jobs-applyformcommon-easyApplyFormElement-''
     @ [CHR 0x27] @ '')]''"

fun FillInvalids_inputs ::
  "('s, 'e) rod \<Rightarrow> 'e \<Rightarrow> LinkedInProfile \<Rightarrow> fallback option \<Rightarrow> 'e list \<Rightarrow> (unit, 's) prog" where
  "FillInvalids_inputs env root profile llmFallback [] = ret ()"
| "FillInvalids_inputs env root profile llmFallback (inputEl # rest) =
     andThen (plain (isEmpty env inputEl)) (\<lambda>empty.
     andThen (if empty then plain (isRequired env inputEl) else ret False) (\<lambda>required.
       if empty \<and> required then
         andThen (plain (getBestLabelText env root inputEl)) (\<lambda>labelText.
         andThen (plain (attr env inputEl ''type'')) (\<lambda>inputType.
         andThen (plain (clearAndType env inputEl
                           (ChooseValue (go_strings env) labelText inputType profile
                              llmFallback))) (\<lambda>err.
           FillInvalids_inputs env root profile llmFallback rest)))
       else FillInvalids_inputs env root profile llmFallback rest))"

definition FillInvalids ::
  "('s, 'e) rod \<Rightarrow> 'e \<Rightarrow> LinkedInProfile \<Rightarrow> fallback option \<Rightarrow> (error option, 's) prog" where
  "FillInvalids env root profile llmFallback =
     andThen (must (MustElementsXIn env root textInputXPath)) (\<lambda>integerInputs.
     andThen (FillInvalids_inputs env root profile llmFallback integerInputs) (\<lambda>_.
       ret None))"

subsection \<open>The closures of \<open>FillOutEasyApplyForm\<close>\<close>

text \<open>
  \<open>isPresent\<close>: the locator is found in the main document within four seconds, or some
  embedded frame has it. The loop over the frames returns at the first frame that has it.
\<close>

fun isPresent_frames :: "('s, 'e) rod \<Rightarrow> locator \<Rightarrow> 'e list \<Rightarrow> (bool, 's) prog" where
  "isPresent_frames env loc [] = ret False"
| "isPresent_frames env loc (iframe # iframes) =
     andThen (must (MustFrame env iframe)) (\<lambda>frame.
     andThen (plain (if kind loc = ''css'' then Has env frame (q loc)
                     else HasX env frame (q loc))) (\<lambda>has.
       if has \<noteq> None then ret True else isPresent_frames env loc iframes))"

definition isPresent :: "('s, 'e) rod \<Rightarrow> locator \<Rightarrow> (bool, 's) prog" where
  "isPresent env loc =
     andThen
       (andThen (must (MustWaitLoad env)) (\<lambda>_.
        andThen (plain (Element env 4000 (q loc))) (\<lambda>found.
          case found of
            Inl err \<Rightarrow>
              andThen (must (MustElements env ''iframe'')) (\<lambda>iframes.
                isPresent_frames env loc iframes)
          | Inr el \<Rightarrow> ret True)))
       (\<lambda>present. andThen (emit (PresenceChecked loc present)) (\<lambda>_. ret present))"

definition hasErrors :: "('s, 'e) rod \<Rightarrow> (bool, 's) prog" where
  "hasErrors env = isPresent env errorLoc"

text \<open>
  \<open>handleInlineErrors\<close>: nothing when no error marker is present; otherwise the fill pass in
  the shadow root of the modal of every frame that has the marker. The modal is searched
  for in the frame without a timeout.
\<close>

fun handleInlineErrors_frames ::
  "('s, 'e) rod \<Rightarrow> LinkedInProfile \<Rightarrow> 'e list \<Rightarrow> (unit, 's) prog" where
  "handleInlineErrors_frames env profile [] = ret ()"
| "handleInlineErrors_frames env profile (iframe # iframes) =
     andThen (must (MustFrame env iframe)) (\<lambda>frame.
     andThen (plain (Has env frame errorMessageSel)) (\<lambda>has.
       if has \<noteq> None then
         andThen (waits (ElementIn env frame ''.jobs-easy-apply-modal'')) (\<lambda>found.
           case found of
             Inl err \<Rightarrow> handleInlineErrors_frames env profile iframes
           | Inr host \<Rightarrow>
               andThen (must (MustShadowRoot env host)) (\<lambda>shadowRoot.
                 case shadowRoot of
                   None \<Rightarrow> handleInlineErrors_frames env profile iframes
                 | Some root \<Rightarrow>
                     andThen (FillInvalids env root profile None) (\<lambda>err.
                       handleInlineErrors_frames env profile iframes)))
       else handleInlineErrors_frames env profile iframes))"

definition handleInlineErrors :: "('s, 'e) rod \<Rightarrow> LinkedInProfile \<Rightarrow> (unit, 's) prog" where
  "handleInlineErrors env profile =
     andThen (emit HandleInlineErrorsRuns) (\<lambda>_.
     andThen (isPresent env errorLoc) (\<lambda>present.
       if \<not> present then ret ()
       else andThen (must (MustElements env ''iframe'')) (\<lambda>iframes.
              handleInlineErrors_frames env profile iframes)))"

text \<open>
  \<open>clickWhenClickable\<close>: when the locator is found in the main document within two seconds
  the closure returns nil at once; otherwise the first frame that has it gets the element
  scrolled into view, focused, and the Enter key, whose error is the result; with no such
  frame the result is the error of the search in the main document.
\<close>

fun clickWhenClickable_frames ::
  "('s, 'e) rod \<Rightarrow> locator \<Rightarrow> error \<Rightarrow> 'e list \<Rightarrow> (error option, 's) prog" where
  "clickWhenClickable_frames env loc err [] = ret (Some err)"
| "clickWhenClickable_frames env loc err (iframe # iframes) =
     andThen (must (MustFrame env iframe)) (\<lambda>frame.
     andThen (plain (Has env frame (q loc))) (\<lambda>has.
       case has of
         Some button \<Rightarrow>
           andThen (plain (ScrollIntoView env button)) (\<lambda>_.
           andThen (plain (Focus env button)) (\<lambda>_.
             plain (KeyboardPress env frame)))
       | None \<Rightarrow> clickWhenClickable_frames env loc err iframes))"

definition clickWhenClickable :: "('s, 'e) rod \<Rightarrow> locator \<Rightarrow> (error option, 's) prog" where
  "clickWhenClickable env loc =
     andThen (emit (ActionAttempted loc)) (\<lambda>_.
     andThen (plain (if kind loc = ''xpath'' then ElementX env 2000 (q loc)
                     else Element env 2000 (q loc))) (\<lambda>found.
       case found of
         Inl err \<Rightarrow>
           andThen (must (MustElements env ''iframe'')) (\<lambda>iframes.
             clickWhenClickable_frames env loc err iframes)
       | Inr el \<Rightarrow> ret None))"

subsection \<open>The main loop\<close>

text \<open>
  One candidate action of the inner loop, up to its \<open>break\<close>: the result is whether the
  inner loop breaks, and the value of \<open>submitted\<close>.
\<close>

definition tryButton ::
  "('s, 'e) rod \<Rightarrow> nat \<Rightarrow> locator \<Rightarrow> bool \<Rightarrow> (bool \<times> bool, 's) prog" where
  "tryButton env j loc submitted =
     andThen (isPresent env loc) (\<lambda>present.
       if present then
         andThen (hasErrors env) (\<lambda>errors.
           if \<not> errors then
             andThen (clickWhenClickable env loc) (\<lambda>err.
               if err = None then
                 (if j = 3 then ret (True, True)
                  else if j = 0 then ret (True, submitted)
                  else ret (False, submitted))
               else ret (False, submitted))
           else ret (False, submitted))
       else ret (False, submitted))"

fun buttons_loop ::
  "('s, 'e) rod \<Rightarrow> LinkedInProfile \<Rightarrow> nat \<Rightarrow> locator list \<Rightarrow> bool \<Rightarrow> (bool, 's) prog" where
  "buttons_loop env profile j [] submitted = ret submitted"
| "buttons_loop env profile j (loc # rest) submitted =
     andThen (tryButton env j loc submitted) (\<lambda>(stop, submitted').
       if stop then ret submitted'
       else andThen (handleInlineErrors env profile) (\<lambda>_.
              buttons_loop env profile (Suc j) rest submitted'))"

function wizard_loop ::
  "('s, 'e) rod \<Rightarrow> LinkedInProfile \<Rightarrow> nat \<Rightarrow> bool \<Rightarrow> (bool, 's) prog" where
  "wizard_loop env profile i submitted =
     (if i < 15 \<and> \<not> submitted then
        andThen (emit (IterationStarts i)) (\<lambda>_.
        andThen (handleInlineErrors env profile) (\<lambda>_.
        andThen (buttons_loop env profile 0 buttons submitted) (\<lambda>submitted'.
          wizard_loop env profile (Suc i) submitted')))
      else ret submitted)"
  by pat_completeness auto
termination
  by (relation "measure (\<lambda>(env, profile, i, submitted). 15 - i)") auto

text \<open>
  \<open>FillOutEasyApplyForm\<close>: a pause, the loop, and the deferred pause, which also runs when
  the loop panics; when the loop blocks, the function does not come to its end. The error
  result is always nil.
\<close>

definition FillOutEasyApplyForm ::
  "('s, 'e) rod \<Rightarrow> LinkedInProfile \<Rightarrow> (bool \<times> error option, 's) prog" where
  "FillOutEasyApplyForm env profile s =
     (case andThen (plain (Sleep env 1500 2500)) (\<lambda>_. wizard_loop env profile 0 False) s of
        (Inl Blocks, s') \<Rightarrow> (Inl Blocks, s')
      | (Inl (Panic p), s') \<Rightarrow>
          (case plain (Sleep env 1500 2500) s' of (_, s'') \<Rightarrow> (Inl (Panic p), s''))
      | (Inr submitted, s') \<Rightarrow>
          (case plain (Sleep env 1500 2500) s' of (_, s'') \<Rightarrow> (Inr (submitted, None), s'')))"

section \<open>The application campaign loop\<close>

text \<open>
  \<open>LoadPage\<close>: the results list is searched for without a timeout; then a hover over it,
  fourteen scroll steps with a pause after each, and the page markup goes to \<open>goquery\<close>. The
  document is dropped here, as by the caller.
\<close>

function LoadPage_scroll :: "('s, 'e) rod \<Rightarrow> nat \<Rightarrow> (error option, 's) prog" where
  "LoadPage_scroll env i =
     (if i < 14 then
        andThen (plain (MouseScroll env)) (\<lambda>err.
          case err of
            Some e \<Rightarrow> ret (Some e)
          | None \<Rightarrow> andThen (plain (Sleep env 2000 2000)) (\<lambda>_. LoadPage_scroll env (Suc i)))
      else ret None)"
  by pat_completeness auto
termination
  by (relation "measure (\<lambda>(env, i). 14 - i)") auto

definition LoadPage :: "('s, 'e) rod \<Rightarrow> (error option, 's) prog" where
  "LoadPage env =
     andThen (waits (ElementWait env ''.scaffold-layout__list'')) (\<lambda>found.
       case found of
         Inl err \<Rightarrow> ret (Some err)
       | Inr jobList \<Rightarrow>
           andThen (plain (Hover env jobList)) (\<lambda>err.
             case err of
               Some e \<Rightarrow> ret (Some e)
             | None \<Rightarrow>
                 andThen (LoadPage_scroll env 0) (\<lambda>err.
                   case err of
                     Some e \<Rightarrow> ret (Some e)
                   | None \<Rightarrow>
                       andThen (plain (HTML env)) (\<lambda>markup.
                         case markup of
                           Inl e \<Rightarrow> ret (Some e)
                         | Inr html \<Rightarrow> ret (NewDocumentFromReader env html)))))"

definition easyApplyXPath :: string where
  "easyApplyXPath = ''//*[contains(@aria-label, '' @ [CHR 0x22] @ ''Easy Apply to'' @ [CHR 0x22] @ '')]''"

definition GetEasyApplyButton :: "('s, 'e) rod \<Rightarrow> (bool \<times> error option, 's) prog" where
  "GetEasyApplyButton env =
     andThen (must (MustWaitLoad env)) (\<lambda>_.
     andThen (must (MustElementsX env easyApplyXPath)) (\<lambda>found.
       case found of
         [] \<Rightarrow> ret (False, Some (ErrOther ''Easy Apply button not found''))
       | b # _ \<Rightarrow> andThen (must (MustClick env b)) (\<lambda>_. ret (True, None))))"

definition searchURL :: "string \<Rightarrow> string \<Rightarrow> int \<Rightarrow> string" where
  "searchURL position location jobsPerPage =
     ''https://www.linkedin.com/jobs/search/?f_LF=f_AL&keywords='' @ position @
     ''&location='' @ location @ ''&sortBy=DD&start='' @ Itoa jobsPerPage"

definition jobURL :: "int \<Rightarrow> string" where
  "jobURL jobID = ''https://www.linkedin.com/jobs/view/'' @ Itoa jobID"

text \<open>
  The links of one job card: a link without \<open>href\<close> makes \<open>*jobLink\<close> a nil dereference, and
  a panic of \<open>ExtractJobID\<close> goes through; a link whose identifier is not extracted is skipped.
\<close>

fun StartApplying_children :: "('s, 'e) rod \<Rightarrow> 'e list \<Rightarrow> int list \<Rightarrow> (int list, 's) prog" where
  "StartApplying_children env [] IDs = ret IDs"
| "StartApplying_children env (child # rest) IDs =
     andThen (must (MustAttribute env child ''href'')) (\<lambda>jobLink.
       case jobLink of
         None \<Rightarrow> raise NilDereference
       | Some href \<Rightarrow>
           (case ExtractJobID (url_Parse env) href of
              Inl p \<Rightarrow> raise p
            | Inr (jobID, ok) \<Rightarrow>
                if \<not> ok then StartApplying_children env rest IDs
                else StartApplying_children env rest (IDs @ [jobID])))"

definition jobLinkXPath :: string where
  "jobLinkXPath = ''.//a[contains(@class, '' @ [CHR 0x27] @ ''job-card-container__link'' @ [CHR 0x27] @ '')]''"

fun StartApplying_links :: "('s, 'e) rod \<Rightarrow> 'e list \<Rightarrow> int list \<Rightarrow> (int list, 's) prog" where
  "StartApplying_links env [] IDs = ret IDs"
| "StartApplying_links env (element # rest) IDs =
     andThen (must (MustElementsXIn env element jobLinkXPath)) (\<lambda>children.
     andThen (StartApplying_children env children IDs) (\<lambda>IDs'.
       StartApplying_links env rest IDs'))"

fun StartApplying_jobs :: "('s, 'e) rod \<Rightarrow> LinkedInProfile \<Rightarrow> int list \<Rightarrow> (unit, 's) prog" where
  "StartApplying_jobs env profile [] = ret ()"
| "StartApplying_jobs env profile (jobID # rest) =
     andThen (must (MustNavigate env (jobURL jobID))) (\<lambda>_.
     andThen (plain (Sleep env 2000 2000)) (\<lambda>_.
     andThen (GetEasyApplyButton env) (\<lambda>(found, err).
       if err \<noteq> None then StartApplying_jobs env profile rest
       else andThen (FillOutEasyApplyForm env profile) (\<lambda>_.
              StartApplying_jobs env profile rest))))"

text \<open>
  The campaign loop has no exit of its own: it ends with the error of a failed load or of an
  empty result page, or with a halt. The model runs it for a number of iterations (the
  fuel) and reports \<open>StillRunning\<close> after them. Every opening of the search results is
  recorded in the trace with the offset put into the URL.
\<close>

datatype 'a progress = Returned 'a | StillRunning

fun StartApplying_loop ::
  "nat \<Rightarrow> ('s, 'e) rod \<Rightarrow> LinkedInProfile \<Rightarrow> string \<Rightarrow> string \<Rightarrow> int \<Rightarrow> int list \<Rightarrow>
   (error progress, 's) prog" where
  "StartApplying_loop 0 env profile position location jobsPerPage IDs = ret StillRunning"
| "StartApplying_loop (Suc fuel) env profile position location jobsPerPage IDs =
     andThen (emit (SearchOpened jobsPerPage)) (\<lambda>_.
     andThen (must (MustNavigate env (searchURL position location jobsPerPage))) (\<lambda>_.
     andThen (plain (Sleep env 1000 1000)) (\<lambda>_.
     andThen (LoadPage env) (\<lambda>err.
       case err of
         Some e \<Rightarrow> ret (Returned (ErrWrap ''failed to load page'' e))
       | None \<Rightarrow>
           andThen (must (MustElementsX env ''//div[@data-job-id]'')) (\<lambda>links.
             if links = [] then
               ret (Returned (ErrOther ''No job links found, stopping application process.''))
             else
               andThen (StartApplying_links env links IDs) (\<lambda>IDs'.
               andThen (StartApplying_jobs env profile IDs') (\<lambda>_.
                 StartApplying_loop fuel env profile position location jobsPerPage IDs')))))))"

text \<open>
  \<open>StartApplying\<close>: a random position and a random location of the profile (\<open>rand.Intn\<close>
  panics on an empty list and draws below its argument otherwise), offset 0, no identifiers.
  The flag set by \<open>SetApplying\<close> is not part of the model.
\<close>

definition StartApplying ::
  "nat \<Rightarrow> ('s, 'e) rod \<Rightarrow> LinkedInProfile \<Rightarrow> (error progress, 's) prog" where
  "StartApplying fuel env profile =
     (if Positions profile = [] then raise IntnArgument
      else
        andThen (plain (Intn env (length (Positions profile)))) (\<lambda>i.
          if Locations profile = [] then raise IntnArgument
          else
            andThen (plain (Intn env (length (Locations profile)))) (\<lambda>k.
              StartApplying_loop fuel env profile
                (Positions profile ! (i mod length (Positions profile)))
                (Locations profile ! (k mod length (Locations profile)))
                0 [])))"

section \<open>Statements about traces\<close>

text \<open>
  What may follow what in a trace: the start of an iteration is followed by the
  error-handling pass, and an action attempt follows a check of the error marker that found
  none.
\<close>

fun isIterationStart :: "event \<Rightarrow> bool" where
  "isIterationStart (IterationStarts i) = True"
| "isIterationStart _ = False"

fun isAttempt :: "event \<Rightarrow> bool" where
  "isAttempt (ActionAttempted loc) = True"
| "isAttempt _ = False"

definition mayFollow :: "event \<Rightarrow> event \<Rightarrow> bool" where
  "mayFollow e1 e2 =
     ((isIterationStart e1 \<longrightarrow> e2 = HandleInlineErrorsRuns) \<and>
      (isAttempt e2 \<longrightarrow> e1 = PresenceChecked errorLoc False))"

definition ordered :: "event list \<Rightarrow> bool" where
  "ordered tr = (successively mayFollow tr \<and> (tr \<noteq> [] \<longrightarrow> \<not> isAttempt (hd tr)))"

definition iterations :: "event list \<Rightarrow> nat" where
  "iterations tr = length (filter isIterationStart tr)"

fun searchOffsets :: "event list \<Rightarrow> int list" where
  "searchOffsets [] = []"
| "searchOffsets (SearchOpened n # tr) = n # searchOffsets tr"
| "searchOffsets (e # tr) = searchOffsets tr"

fun attempts :: "event list \<Rightarrow> locator list" where
  "attempts [] = []"
| "attempts (ActionAttempted loc # tr) = loc # attempts tr"
| "attempts (e # tr) = attempts tr"


text \<open>
  The same order read event by event: \<open>follows prev evs\<close> checks the events \<open>evs\<close> that come
  after the event \<open>prev\<close> (after nothing, for \<open>None\<close>). A trace is settled when it is ordered
  and does not end at the start of an iteration; events are quiet when none of them starts an
  iteration or opens the search results.
\<close>

fun follows :: "event option \<Rightarrow> event list \<Rightarrow> bool" where
  "follows prev [] = True"
| "follows prev (e # evs) =
     ((case prev of None \<Rightarrow> \<not> isAttempt e | Some e0 \<Rightarrow> mayFollow e0 e) \<and> follows (Some e) evs)"

definition lastEvent :: "event list \<Rightarrow> event option" where
  "lastEvent tr = (if tr = [] then None else Some (last tr))"

definition settled :: "event list \<Rightarrow> bool" where
  "settled tr = (ordered tr \<and> (tr = [] \<or> \<not> isIterationStart (last tr)))"

definition quiet :: "event list \<Rightarrow> bool" where
  "quiet evs = list_all (\<lambda>e. \<not> isIterationStart e \<and> searchOffsets [e] = []) evs"



subsection \<open>A wizard of three steps\<close>

text \<open>
  The four locators of the action list, by name, and a session that shows a wizard of three
  steps: \<open>stage\<close> reads the step off the page state. At step 0 only the advance button is
  present, at step 1 only the review button, at step 2 the submit button; the follow-company
  label is present at the steps \<open>follow\<close> says. No error marker ever shows. Pausing and
  looking for a locator leave the step as it is; an action on a locator that is present
  succeeds and leads to the next step, except that the follow-company label leaves the step
  as it is.
\<close>

definition nextLoc :: locator where
  "nextLoc = \<lparr>kind = ''css'', q = nextSel\<rparr>"

definition reviewLoc :: locator where
  "reviewLoc = \<lparr>kind = ''css'', q = reviewSel\<rparr>"

definition followLoc :: locator where
  "followLoc = \<lparr>kind = ''css'', q = followLabelSel\<rparr>"

definition submitLoc :: locator where
  "submitLoc = \<lparr>kind = ''css'', q = submitSel\<rparr>"

definition visibleAt :: "(nat \<Rightarrow> bool) \<Rightarrow> nat \<Rightarrow> locator \<Rightarrow> bool" where
  "visibleAt follow n loc =
     ((n = 0 \<and> loc = nextLoc) \<or> (n = 1 \<and> loc = reviewLoc) \<or> (n = 2 \<and> loc = submitLoc) \<or>
      (follow n \<and> loc = followLoc))"

definition stageAfter :: "nat \<Rightarrow> locator \<Rightarrow> nat" where
  "stageAfter n loc = (if loc = followLoc then n else Suc n)"

definition threeStepWizard :: "('s, 'e) rod \<Rightarrow> ('s \<Rightarrow> nat) \<Rightarrow> (nat \<Rightarrow> bool) \<Rightarrow> bool" where
  "threeStepWizard env stage follow =
     ((\<forall>lo hi pg. stage (snd (Sleep env lo hi pg)) = stage pg) \<and>
      (\<forall>s. \<forall>loc \<in> set (errorLoc # buttons).
         fst (isPresent env loc s) = Inr (visibleAt follow (stage (fst s)) loc) \<and>
         stage (fst (snd (isPresent env loc s))) = stage (fst s) \<and>
         (visibleAt follow (stage (fst s)) loc \<longrightarrow>
            fst (clickWhenClickable env loc s) = Inr None \<and>
            stage (fst (snd (clickWhenClickable env loc s))) = stageAfter (stage (fst s)) loc)))"

section \<open>Concrete inputs\<close>

text \<open>
  A filled-in profile, the profile as the store creates it (only the credentials set), three
  fallbacks (one always answers \<open>blue\<close>, one answers it with white space around, one
  answers white space only), and the links used below with the URLs \<open>url.Parse\<close> returns
  for them.
\<close>

definition exampleProfile :: LinkedInProfile where
  "exampleProfile =
     \<lparr>ID = 1, Email = ''ada@example.com'', Password = ''secret'', PhoneNumber = ''555-0100'',
      Positions = [''engineer''], Locations = [''Austin''], RemoteOnly = False,
      ProfileURL = ''https://www.linkedin.com/in/ada'', YearsExperience = 7,
      UserCity = ''Austin'', UserState = ''TX'', ZipCode = [], DesiredSalary = 90000\<rparr>"

definition freshProfile :: LinkedInProfile where
  "freshProfile =
     \<lparr>ID = 2, Email = ''bob@example.com'', Password = ''secret'', PhoneNumber = [],
      Positions = [], Locations = [], RemoteOnly = False, ProfileURL = [], YearsExperience = 0,
      UserCity = [], UserState = [], ZipCode = [], DesiredSalary = 0\<rparr>"

definition fallbackBlue :: fallback where
  "fallbackBlue label typ = (''blue'', None)"

definition fallbackPadded :: fallback where
  "fallbackPadded label typ = (''  blue '', None)"

definition fallbackBlank :: fallback where
  "fallbackBlank label typ = (''   '', None)"

definition linkTable :: "(string \<times> URL) list" where
  "linkTable =
     [(''/jobs/search/'', pathURL ''/jobs/search/''),
      (''/jobs/'', pathURL ''/jobs/''),
      (''/jobs/view/3847562910/'', pathURL ''/jobs/view/3847562910/''),
      (''/jobs/view/99999999999999999999/'', pathURL ''/jobs/view/99999999999999999999/''),
      (''https://www.linkedin.com/jobs/view/3847562910/?refId=abc#top'',
         \<lparr>Scheme = ''https'', Host = ''www.linkedin.com'', Path = ''/jobs/view/3847562910/'',
          RawQuery = ''refId=abc'', Fragment = ''top''\<rparr>),
      (''https://www.linkedin.com/jobs/search/?keywords=engineer'',
         \<lparr>Scheme = ''https'', Host = ''www.linkedin.com'', Path = ''/jobs/search/'',
          RawQuery = ''keywords=engineer'', Fragment = []\<rparr>)]"

text \<open>
  A scripted session. The page is at a step of the wizard and has one element focused; the
  wizard lives in the one embedded frame (handle 10), which shows the button of the step
  (and the follow-company label at step 2 when \<open>follow\<close> holds); Enter on the focused button
  of the step leads to the next step, Enter on the label changes nothing. The search
  results show one job card (20) with one link (21) to the posting 3847562910, the results
  list is element 30, the modal in the frame is element 11, and no posting has an Easy Apply
  button. No call halts; the main document has none of the locators.
\<close>

record wizardPage =
  step :: nat
  focused :: "nat option"

definition buttonShown :: "bool \<Rightarrow> nat \<Rightarrow> string \<Rightarrow> bool" where
  "buttonShown follow n sel =
     ((n = 0 \<and> sel = nextSel) \<or> (n = 1 \<and> sel = reviewSel) \<or> (n = 2 \<and> sel = submitSel) \<or>
      (n = 2 \<and> follow \<and> sel = followLabelSel))"

definition handleOf :: "string \<Rightarrow> nat" where
  "handleOf sel =
     (if sel = nextSel then 1 else if sel = reviewSel then 2
      else if sel = followLabelSel then 3 else if sel = submitSel then 4 else 0)"

definition pressEnter :: "wizardPage \<Rightarrow> wizardPage" where
  "pressEnter pg =
     (if (step pg = 0 \<and> focused pg = Some 1) \<or> (step pg = 1 \<and> focused pg = Some 2) \<or>
         (step pg = 2 \<and> focused pg = Some 4)
      then pg\<lparr>step := Suc (step pg)\<rparr> else pg)"

definition scriptedSession :: "bool \<Rightarrow> (wizardPage, nat) rod" where
  "scriptedSession follow =
     \<lparr>MustWaitLoad = (\<lambda>pg. (Inr (), pg)),
      Element = (\<lambda>t sel pg. (Inl (ErrOther ''context deadline exceeded''), pg)),
      ElementX = (\<lambda>t sel pg. (Inl (ErrOther ''context deadline exceeded''), pg)),
      ElementWait = (\<lambda>sel pg. (Some (Inr 30), pg)),
      MustElements = (\<lambda>sel pg. (Inr (if sel = ''iframe'' then [10] else []), pg)),
      MustElementsX = (\<lambda>sel pg. (Inr (if sel = ''//div[@data-job-id]'' then [20] else []), pg)),
      MustFrame = (\<lambda>el pg. (Inr el, pg)),
      Has = (\<lambda>frame sel pg.
        (if buttonShown follow (step pg) sel then Some (handleOf sel) else None, pg)),
      HasX = (\<lambda>frame sel pg. (None, pg)),
      ElementIn = (\<lambda>frame sel pg. (Some (Inr 11), pg)),
      MustElementsXIn = (\<lambda>el sel pg. (Inr (if el = 20 \<and> sel = jobLinkXPath then [21] else []), pg)),
      MustShadowRoot = (\<lambda>el pg. (Inr None, pg)),
      MustAttribute = (\<lambda>el name pg.
        (Inr (if el = 21 \<and> name = ''href'' then Some ''/jobs/view/3847562910/'' else None), pg)),
      MustClick = (\<lambda>el pg. (Inr (), pg)),
      MustNavigate = (\<lambda>url pg. (Inr (), \<lparr>step = 0, focused = None\<rparr>)),
      ScrollIntoView = (\<lambda>el pg. (None, pg)),
      Focus = (\<lambda>el pg. (None, pg\<lparr>focused := Some el\<rparr>)),
      KeyboardPress = (\<lambda>frame pg. (None, pressEnter pg)),
      Hover = (\<lambda>el pg. (None, pg)),
      MouseScroll = (\<lambda>pg. (None, pg)),
      HTML = (\<lambda>pg. (Inr ''<html></html>'', pg)),
      NewDocumentFromReader = (\<lambda>html. None),
      Sleep = (\<lambda>lo hi pg. ((), pg)),
      Intn = (\<lambda>n pg. (0, pg)),
      url_Parse = parseTable linkTable,
      isEmpty = (\<lambda>el pg. (False, pg)),
      isRequired = (\<lambda>el pg. (False, pg)),
      getBestLabelText = (\<lambda>root el pg. ([], pg)),
      attr = (\<lambda>el name pg. ([], pg)),
      clearAndType = (\<lambda>el text pg. (None, pg)),
      go_strings = asciiStrings\<rparr>"


definition firstStep :: wizardPage where
  "firstStep = \<lparr>step = 0, focused = None\<rparr>"


text \<open>
  A session whose wizard renders its last step late. The frame shows the advance button at
  step 0 and the review button at step 1, and Enter on each leads to the next step. After
  the review step the frame shows no button: the steps 2, 3 and 4 are the page rendering,
  and each look for the submit button in the frame finds none and lets the rendering go one
  step on. From step 5 the frame shows the submit button, and Enter on it submits. No error
  marker ever shows.
\<close>

definition lateShown :: "nat \<Rightarrow> string \<Rightarrow> bool" where
  "lateShown n sel =
     ((n = 0 \<and> sel = nextSel) \<or> (n = 1 \<and> sel = reviewSel) \<or> (n = 5 \<and> sel = submitSel))"

definition lateLookup :: "string \<Rightarrow> wizardPage \<Rightarrow> wizardPage" where
  "lateLookup sel pg =
     (if sel = submitSel \<and> 2 \<le> step pg \<and> step pg < 5 then pg\<lparr>step := Suc (step pg)\<rparr> else pg)"

definition latePress :: "wizardPage \<Rightarrow> wizardPage" where
  "latePress pg =
     (if (step pg = 0 \<and> focused pg = Some 1) \<or> (step pg = 1 \<and> focused pg = Some 2) \<or>
         (step pg = 5 \<and> focused pg = Some 4)
      then pg\<lparr>step := Suc (step pg)\<rparr> else pg)"

definition lateSession :: "(wizardPage, nat) rod" where
  "lateSession =
     (scriptedSession False)
       \<lparr>Has := (\<lambda>frame sel pg.
          (if lateShown (step pg) sel then Some (handleOf sel) else None, lateLookup sel pg)),
        KeyboardPress := (\<lambda>frame pg. (None, latePress pg))\<rparr>"

section \<open>Properties of the library functions\<close>

declare FormatUint.simps [simp del]

lemma FormatUint_nonempty: "FormatUint n \<noteq> []"
  by (subst FormatUint.simps) simp

lemma Itoa_nonempty: "Itoa i \<noteq> []"
  by (simp add: Itoa_def FormatUint_nonempty)

lemma ParseUint_digits:
  "ParseUint n ds =
     (if list_all isDigit ds then Some (n * 10 ^ length ds + digitsValue ds) else None)"
  by (induction ds arbitrary: n) (auto simp: algebra_simps)

lemma minInt_le_nat: "minInt \<le> int n"
  by (simp add: minInt_def)

lemma neg_nat_le_maxInt: "- int n \<le> maxInt"
  by (simp add: maxInt_def)

text \<open>
  \<open>Atoi\<close> accepts exactly the base-10 literals whose value fits the \<open>int\<close> type, and returns
  the value.
\<close>

lemma Atoi_base10:
  "Atoi s =
     (if isBase10 s then (if fitsInt (base10Value s) then Inr (base10Value s) else Inl ErrRange)
      else Inl ErrSyntax)"
proof (cases s)
  case Nil
  then show ?thesis by (simp add: Atoi_def isBase10_def stripSign_def)
next
  case (Cons c cs)
  consider (plus) "c = CHR ''+''" | (minus) "c = CHR ''-''"
    | (other) "c \<noteq> CHR ''+''" "c \<noteq> CHR ''-''"
    by blast
  then show ?thesis
  proof cases
    case plus
    then show ?thesis unfolding Cons
      by (simp add: Atoi_def isBase10_def stripSign_def base10Value_def fitsInt_def
          ParseUint_digits minInt_le_nat not_less)
  next
    case minus
    then show ?thesis unfolding Cons
      by (simp add: Atoi_def isBase10_def stripSign_def base10Value_def fitsInt_def
          ParseUint_digits neg_nat_le_maxInt not_less)
  next
    case other
    have "minInt \<le> int (digitsValue (c # cs))" by (rule minInt_le_nat)
    with other show ?thesis unfolding Cons
      by (simp add: Atoi_def isBase10_def stripSign_def base10Value_def fitsInt_def
          ParseUint_digits not_less Let_def del: digitsValue.simps)
  qed
qed

lemma HasPrefix_prefix: "HasPrefix s p = prefix p s"
  by (auto simp: HasPrefix_def prefix_def) (metis append_eq_conv_conj)

lemma Contains_sublist: "Contains s sub = sublist sub s"
  by (induction s) (auto simp: HasPrefix_prefix sublist_Cons_right)

text \<open>Trimming white space does not change whether a keyword without outer white space occurs.\<close>

lemma sublist_drop_space:
  assumes "kw \<noteq> []" and "\<not> isSpace (hd kw)"
  shows "sublist kw (dropWhile isSpace xs) = sublist kw xs"
proof (induction xs)
  case Nil
  show ?case by simp
next
  case (Cons x xs)
  show ?case
  proof (cases "isSpace x")
    case True
    with assms have "\<not> prefix kw (x # xs)"
      by (cases kw) auto
    with True Cons show ?thesis
      by (simp add: sublist_Cons_right)
  next
    case False
    then show ?thesis by simp
  qed
qed

lemma sublist_asciiTrimSpace:
  assumes "kw \<noteq> []" and "\<not> isSpace (hd kw)" and "\<not> isSpace (last kw)"
  shows "sublist kw (asciiTrimSpace s) = sublist kw s"
proof -
  have r: "rev kw \<noteq> []" "\<not> isSpace (hd (rev kw))"
    using assms by (simp_all add: hd_rev)
  have "sublist kw (asciiTrimSpace s)
        = sublist (rev kw) (dropWhile isSpace (rev (dropWhile isSpace s)))"
    unfolding asciiTrimSpace_def by (simp add: sublist_rev_right)
  also have "\<dots> = sublist (rev kw) (rev (dropWhile isSpace s))"
    by (rule sublist_drop_space [OF r])
  also have "\<dots> = sublist kw (dropWhile isSpace s)"
    by simp
  also have "\<dots> = sublist kw s"
    by (rule sublist_drop_space [OF assms(1,2)])
  finally show ?thesis .
qed

lemma isSpace_toLowerByte: "isSpace (toLowerByte c) = isSpace c"
  by (auto simp: isSpace_def toLowerByte_def)

lemma asciiToLower_asciiTrimSpace:
  "asciiToLower (asciiTrimSpace s) = asciiTrimSpace (asciiToLower s)"
proof -
  have c: "isSpace \<circ> toLowerByte = isSpace"
    by (rule ext) (simp add: isSpace_toLowerByte)
  show ?thesis
    by (simp add: asciiToLower_def asciiTrimSpace_def rev_map dropWhile_map c)
qed

text \<open>
  On ASCII text a plain keyword matches the label exactly when it occurs in the lower-cased
  label: trimming the label makes no difference.
\<close>

lemma ascii_labelHas:
  assumes "plainKeyword kw"
  shows "labelHas asciiStrings label kw = sublist kw (asciiToLower label)"
  using assms unfolding plainKeyword_def
  by (simp add: labelHas_def asciiStrings_def asciiToLower_asciiTrimSpace sublist_asciiTrimSpace)

lemma keywords_plain:
  "list_all plainKeyword [''phone'', ''mobile'', ''telephone'', ''contact'']"
  "list_all plainKeyword [''city'', ''location'', ''reside'']"
  "plainKeyword ''have you ever worked''"
  "plainKeyword ''state''"
  "list_all plainKeyword [''salary'', ''wage'', ''income'', ''compensation'']"
  "plainKeyword ''experience''"
  "plainKeyword ''year''"
  "list_all plainKeyword [''linkedin'', ''linked-in'', ''linked in'']"
  by (simp_all add: plainKeyword_def isSpace_def asciiToLower_def toLowerByte_def)

text \<open>The substring tests of the source are the matching of the specification.\<close>

lemma Contains_labelHas:
  "Contains (ToLower lib (TrimSpace lib label)) kw = labelHas lib label kw"
  by (simp add: Contains_sublist labelHas_def)

lemma containsAny_labelHasAny:
  "containsAny (ToLower lib (TrimSpace lib label)) kws = labelHasAny lib label kws"
  by (induction kws) (simp_all add: Contains_labelHas)

section \<open>The posting-link identifier\<close>

text \<open>
  A link that does not parse gives 0 and false; a link that parses makes the call panic
  exactly when its path has two segments.
\<close>

lemma ExtractJobID_parse_error:
  "parse href = Inl e \<Longrightarrow> ExtractJobID parse href = Inr (0, False)"
  by (simp add: ExtractJobID_def)

lemma ExtractJobID_panics_iff:
  assumes "parse href = Inr u"
  shows "ExtractJobID parse href = Inl IndexOutOfRange
         \<longleftrightarrow> length (Split (Trim (Path u) ''/'') (CHR ''/'')) = 2"
  using assms by (auto simp: ExtractJobID_def Let_def split: sum.splits)

text \<open>
  C1, as amended. For every link that parses, with the pieces of the slash-trimmed path as
  \<open>strings.Split\<close> gives them: when there are at least three pieces and the piece at index 2
  is a base-10 integer literal whose value fits the \<open>int\<close> type, \<open>ExtractJobID\<close> returns that
  value and true; when there is one piece only, or at least three and the piece at index 2
  is not such a literal or does not fit, it returns 0 and false. Paths of exactly two pieces
  are not covered.
\<close>

theorem ExtractJobID_third_segment:
  assumes "parse href = Inr u"
  shows "(3 \<le> length (Split (Trim (Path u) ''/'') (CHR ''/'')) \<and>
          isBase10 (Split (Trim (Path u) ''/'') (CHR ''/'') ! 2) \<and>
          fitsInt (base10Value (Split (Trim (Path u) ''/'') (CHR ''/'') ! 2))
          \<longrightarrow> ExtractJobID parse href =
                Inr (base10Value (Split (Trim (Path u) ''/'') (CHR ''/'') ! 2), True))
       \<and> (length (Split (Trim (Path u) ''/'') (CHR ''/'')) < 2 \<or>
          (3 \<le> length (Split (Trim (Path u) ''/'') (CHR ''/'')) \<and>
           \<not> (isBase10 (Split (Trim (Path u) ''/'') (CHR ''/'') ! 2) \<and>
              fitsInt (base10Value (Split (Trim (Path u) ''/'') (CHR ''/'') ! 2))))
          \<longrightarrow> ExtractJobID parse href = Inr (0, False))"
  using assms by (auto simp: ExtractJobID_def Let_def Atoi_base10)

theorem ExtractJobID_third_segment_witness:
  "ExtractJobID (parseTable linkTable) ''/jobs/view/3847562910/'' = Inr (3847562910, True) \<and>
   ExtractJobID (parseTable linkTable) ''/jobs/'' = Inr (0, False)"
proof -
  have p1: "parseTable linkTable ''/jobs/view/3847562910/'' = Inr (pathURL ''/jobs/view/3847562910/'')"
    by (simp add: parseTable_def linkTable_def)
  have s1: "Split (Trim (Path (pathURL ''/jobs/view/3847562910/'')) ''/'') (CHR ''/'')
            = [''jobs'', ''view'', ''3847562910'']"
    by (simp add: pathURL_def Trim_def)
  have v1: "isBase10 ''3847562910''" "base10Value ''3847562910'' = 3847562910"
    "fitsInt 3847562910"
    by (simp_all add: isBase10_def stripSign_def isDigit_def base10Value_def digitVal_def
        fitsInt_def minInt_def maxInt_def)
  have p2: "parseTable linkTable ''/jobs/'' = Inr (pathURL ''/jobs/'')"
    by (simp add: parseTable_def linkTable_def)
  have s2: "Split (Trim (Path (pathURL ''/jobs/'')) ''/'') (CHR ''/'') = [''jobs'']"
    by (simp add: pathURL_def Trim_def)
  show ?thesis
    using ExtractJobID_third_segment [of "parseTable linkTable" "''/jobs/view/3847562910/''", OF p1]
      ExtractJobID_third_segment [of "parseTable linkTable" "''/jobs/''", OF p2]
    by (simp add: s1 s2 v1)
qed

text \<open>
  The claim as stated fails twice: the path \<open>/jobs/search/\<close> has two segments, and the call
  panics instead of returning 0 and false; and a third segment that is a base-10 integer
  beyond the \<open>int\<close> range gives 0 and false.
\<close>

theorem ExtractJobID_claim_counterexample:
  "length (Split (Trim ''/jobs/search/'' ''/'') (CHR ''/'')) < 3 \<and>
   ExtractJobID (parseTable linkTable) ''/jobs/search/'' \<noteq> Inr (0, False) \<and>
   isBase10 (Split (Trim ''/jobs/view/99999999999999999999/'' ''/'') (CHR ''/'') ! 2) \<and>
   ExtractJobID (parseTable linkTable) ''/jobs/view/99999999999999999999/'' = Inr (0, False)"
  by (simp add: ExtractJobID_def parseTable_def linkTable_def pathURL_def Trim_def Atoi_def
      isBase10_def stripSign_def isDigit_def digitVal_def maxInt_def minInt_def)

text \<open>
  C2. \<open>ExtractJobID\<close> is not total: on a link whose path has exactly two segments the guard
  \<open>len(segments) < 2\<close> lets the index 2 through, and the call panics.
\<close>

theorem ExtractJobID_two_segments_panics:
  "ExtractJobID (parseTable linkTable) ''https://www.linkedin.com/jobs/search/?keywords=engineer''
   = Inl IndexOutOfRange"
  by (simp add: ExtractJobID_def parseTable_def linkTable_def Trim_def)

text \<open>
  C10. The result depends on the link only through the path of the parsed URL: two links
  that parse to URLs with the same path give the same result (the same panic included).
\<close>

theorem ExtractJobID_depends_on_path:
  assumes "parse h1 = Inr u1" and "parse h2 = Inr u2" and "Path u1 = Path u2"
  shows "ExtractJobID parse h1 = ExtractJobID parse h2"
  using assms by (simp add: ExtractJobID_def)

theorem ExtractJobID_depends_on_path_witness:
  "ExtractJobID (parseTable linkTable) ''https://www.linkedin.com/jobs/view/3847562910/?refId=abc#top''
   = ExtractJobID (parseTable linkTable) ''/jobs/view/3847562910/''"
proof -
  have p1: "parseTable linkTable ''https://www.linkedin.com/jobs/view/3847562910/?refId=abc#top''
            = Inr \<lparr>Scheme = ''https'', Host = ''www.linkedin.com'', Path = ''/jobs/view/3847562910/'',
                   RawQuery = ''refId=abc'', Fragment = ''top''\<rparr>"
    by (simp add: parseTable_def linkTable_def)
  have p2: "parseTable linkTable ''/jobs/view/3847562910/'' = Inr (pathURL ''/jobs/view/3847562910/'')"
    by (simp add: parseTable_def linkTable_def)
  show ?thesis
    using ExtractJobID_depends_on_path [of "parseTable linkTable" _ _ _ _, OF p1 p2]
    by (simp add: pathURL_def)
qed

section \<open>The field value resolver: the cascade\<close>

lemma ChooseValue_resolveNormalised:
  "ChooseValue lib labelText inputType p fb = resolveNormalised lib labelText inputType p fb"
  unfolding ChooseValue_def resolveNormalised_def Let_def labelRule_def
  by (simp only: containsAny_labelHasAny Contains_labelHas)
     (simp split: option.splits prod.splits add: conj_commute)

lemma labelRule_cases:
  "labelRule lib l p = None \<or> labelRule lib l p = Some (1, PhoneNumber p)
   \<or> labelRule lib l p = Some (2, UserCity p @ '', '' @ UserState p)
   \<or> labelRule lib l p = Some (3, ''No'')
   \<or> labelRule lib l p = Some (4, UserState p)
   \<or> labelRule lib l p = Some (5, Itoa (DesiredSalary p))
   \<or> labelRule lib l p = Some (6, Itoa (YearsExperience p))
   \<or> labelRule lib l p = Some (7, ProfileURL p)"
  by (simp add: labelRule_def)

text \<open>
  C4, as amended. Whatever \<open>strings.ToLower\<close> and \<open>strings.TrimSpace\<close> do, \<open>ChooseValue\<close> is
  the priority cascade, first match winning: the seven label rules, a keyword matching when
  it occurs in the label trimmed and lower-cased by these two functions; then the input type,
  trimmed and lower-cased, equal to \<open>number\<close>; then the answer of a present fallback,
  trimmed, when it came without error and is non-empty after trimming; then the years of
  experience. The label \<open>Years of relevant experience\<close> is decided by rule 6, with the input
  type \<open>number\<close> too.
\<close>

theorem ChooseValue_cascade:
  "ChooseValue lib labelText inputType p fb = resolveNormalised lib labelText inputType p fb \<and>
   labelRule asciiStrings ''Years of relevant experience'' p
     = Some (6, Itoa (YearsExperience p)) \<and>
   ChooseValue asciiStrings ''Years of relevant experience'' ''number'' p fb
     = Itoa (YearsExperience p)"
proof -
  have r6: "labelRule asciiStrings ''Years of relevant experience'' p
            = Some (6, Itoa (YearsExperience p))"
    by code_simp
  then have "resolveNormalised asciiStrings ''Years of relevant experience'' ''number'' p fb
             = Itoa (YearsExperience p)"
    by (simp add: resolveNormalised_def)
  with r6 show ?thesis
    by (simp add: ChooseValue_resolveNormalised)
qed

text \<open>
  The cascade as worded compares the input type as it is and uses the fallback answer as it
  is. With the input type \<open>NUMBER\<close> it takes the fallback's \<open>blue\<close>, where the source answers
  the years of experience; a fallback answer with white space around it is returned as it
  is, where the source returns it trimmed; and a fallback answer of white space only, which
  is not empty, is returned, where the source answers the years of experience.
\<close>

theorem ChooseValue_worded_cascade_counterexample:
  "resolveAsWorded asciiStrings ''Favorite color'' ''NUMBER'' exampleProfile (Some fallbackBlue)
     = ''blue'' \<and>
   ChooseValue asciiStrings ''Favorite color'' ''NUMBER'' exampleProfile (Some fallbackBlue)
     = ''7'' \<and>
   resolveAsWorded asciiStrings ''Favorite color'' ''text'' exampleProfile (Some fallbackPadded)
     = ''  blue '' \<and>
   ChooseValue asciiStrings ''Favorite color'' ''text'' exampleProfile (Some fallbackPadded)
     = ''blue'' \<and>
   resolveAsWorded asciiStrings ''Favorite color'' ''text'' exampleProfile (Some fallbackBlank)
     = ''   '' \<and>
   ChooseValue asciiStrings ''Favorite color'' ''text'' exampleProfile (Some fallbackBlank)
     = ''7''"
  by code_simp

section \<open>The field value resolver: its answers\<close>

lemma resolveNormalised_nonempty:
  assumes "labelRule lib l p \<notin> {Some (1, []), Some (4, []), Some (7, [])}"
  shows "resolveNormalised lib l t p fb \<noteq> []"
proof (cases "labelRule lib l p")
  case None
  then show ?thesis
    by (simp add: resolveNormalised_def Itoa_nonempty split: option.splits prod.splits)
next
  case (Some nv)
  with assms labelRule_cases [of lib l p] show ?thesis
    by (auto simp: resolveNormalised_def Itoa_nonempty)
qed

text \<open>
  C7, as amended. Whatever \<open>strings.ToLower\<close> and \<open>strings.TrimSpace\<close> do, \<open>ChooseValue\<close>
  returns a non-empty string unless the first label rule that matches is the phone, the
  state or the profile-URL rule and the profile field it answers with is empty. In
  particular the answer is non-empty whenever no label rule matches, whatever the fallback
  is: nil, failing, or answering white space only.
\<close>

theorem ChooseValue_nonempty:
  assumes "labelRule lib labelText p \<notin> {Some (1, []), Some (4, []), Some (7, [])}"
  shows "ChooseValue lib labelText inputType p fb \<noteq> []"
  using resolveNormalised_nonempty [OF assms] by (simp add: ChooseValue_resolveNormalised)

theorem ChooseValue_nonempty_witness:
  "labelRule asciiStrings ''Favorite color'' freshProfile
     \<notin> {Some (1, []), Some (4, []), Some (7, [])} \<and>
   ChooseValue asciiStrings ''Favorite color'' ''text'' freshProfile (Some fallbackBlank) \<noteq> []"
proof -
  have h: "labelRule asciiStrings ''Favorite color'' freshProfile
           \<notin> {Some (1, []), Some (4, []), Some (7, [])}"
    by code_simp
  show ?thesis
    using h ChooseValue_nonempty [OF h] by simp
qed

text \<open>
  The claim as stated fails for a profile without phone number, as the store creates it: a
  label that asks for the phone number is answered with the empty string.
\<close>

theorem ChooseValue_empty_counterexample:
  "ChooseValue asciiStrings ''Mobile Phone Number'' ''text'' freshProfile None = []"
  by code_simp

section \<open>Traces of the engine\<close>

lemma andThenE:
  assumes "andThen m f s = (r, s')"
  obtains (panics) p where "m s = (Inl p, s')" "r = Inl p"
        | (goes_on) a s1 where "m s = (Inr a, s1)" "f a s1 = (r, s')"
  using assms by (auto simp: andThen_def split: prod.splits sum.splits)

lemma must_trace: "must m s = (r, s') \<Longrightarrow> snd s' = snd s"
  by (auto simp: must_def split: prod.splits)

lemma plain_trace: "plain m s = (r, s') \<Longrightarrow> snd s' = snd s"
  by (auto simp: plain_def split: prod.splits)

lemma waits_trace: "waits m s = (r, s') \<Longrightarrow> snd s' = snd s"
  by (auto simp: waits_def split: prod.splits option.splits)

lemma plain_returns: "plain m s = (r, s') \<Longrightarrow> \<not> isl r"
  by (auto simp: plain_def split: prod.splits)

lemma ret_eq: "ret a s = (r, s') \<longleftrightarrow> r = Inr a \<and> s' = s"
  by (auto simp: ret_def)

lemma raise_eq: "raise p s = (r, s') \<longleftrightarrow> r = Inl (Panic p) \<and> s' = s"
  by (auto simp: raise_def)

lemma emit_eq: "emit e s = (r, s') \<longleftrightarrow> r = Inr () \<and> s' = (fst s, snd s @ [e])"
  by (auto simp: emit_def)

lemmas prog_defs = andThen_def must_def plain_def waits_def ret_def raise_def emit_def

lemma FillInvalids_inputs_trace:
  "FillInvalids_inputs env root profile fb els s = (r, s') \<Longrightarrow> snd s' = snd s"
  by (induction els arbitrary: s)
     (auto simp: prog_defs split: prod.splits sum.splits if_splits)

lemma FillInvalids_trace: "FillInvalids env root profile fb s = (r, s') \<Longrightarrow> snd s' = snd s"
  by (auto simp: FillInvalids_def elim!: andThenE dest!: FillInvalids_inputs_trace must_trace simp: ret_eq)

lemma isPresent_frames_trace: "isPresent_frames env loc fs s = (r, s') \<Longrightarrow> snd s' = snd s"
  by (induction fs arbitrary: s)
     (auto simp: prog_defs split: prod.splits sum.splits if_splits)

lemma handleInlineErrors_frames_trace:
  "handleInlineErrors_frames env profile fs s = (r, s') \<Longrightarrow> snd s' = snd s"
proof (induction fs arbitrary: s)
  case Nil
  then show ?case by (simp add: ret_eq)
next
  case (Cons f fs)
  show ?case
    using Cons.prems 
    by (auto simp: ret_eq elim!: andThenE
        dest!: must_trace plain_trace waits_trace FillInvalids_trace Cons.IH
        split: if_splits sum.splits option.splits)
qed

lemma clickWhenClickable_frames_trace:
  "clickWhenClickable_frames env loc err fs s = (r, s') \<Longrightarrow> snd s' = snd s"
  by (induction fs arbitrary: s)
     (auto simp: prog_defs split: prod.splits sum.splits if_splits option.splits)

lemma isPresent_trace:
  assumes "isPresent env loc s = (r, s')"
  shows "case r of Inl p \<Rightarrow> snd s' = snd s | Inr b \<Rightarrow> snd s' = snd s @ [PresenceChecked loc b]"
  using assms unfolding isPresent_def
  by (auto simp: ret_eq emit_eq elim!: andThenE dest!: must_trace plain_trace isPresent_frames_trace
        split: sum.splits)

lemma clickWhenClickable_trace:
  assumes "clickWhenClickable env loc s = (r, s')"
  shows "snd s' = snd s @ [ActionAttempted loc]"
  using assms unfolding clickWhenClickable_def
  by (auto simp: ret_eq emit_eq elim!: andThenE dest!: must_trace plain_trace clickWhenClickable_frames_trace
        split: sum.splits)

lemma handleInlineErrors_trace:
  assumes "handleInlineErrors env profile s = (r, s')"
  shows "snd s' = snd s @ [HandleInlineErrorsRuns] \<or>
         snd s' = snd s @ [HandleInlineErrorsRuns, PresenceChecked errorLoc True] \<or>
         snd s' = snd s @ [HandleInlineErrorsRuns, PresenceChecked errorLoc False]"
  using assms unfolding handleInlineErrors_def
  by (auto simp: ret_eq emit_eq elim!: andThenE dest!: must_trace plain_trace handleInlineErrors_frames_trace isPresent_trace
        split: sum.splits if_splits)



lemma successively_follows:
  "successively mayFollow (e # evs) = follows (Some e) evs"
  by (induction evs arbitrary: e) auto

lemma ordered_follows: "ordered tr = follows None tr"
  by (cases tr) (auto simp: ordered_def successively_follows)

lemma follows_append:
  "follows prev (tr @ evs) =
     (follows prev tr \<and> follows (if tr = [] then prev else Some (last tr)) evs)"
  by (induction tr arbitrary: prev) auto

lemma ordered_append:
  "ordered (tr @ evs) = (ordered tr \<and> follows (lastEvent tr) evs)"
  by (simp add: ordered_follows follows_append lastEvent_def)

lemma settled_append:
  "settled (tr @ e # evs) =
     (ordered tr \<and> follows (lastEvent tr) (e # evs) \<and> \<not> isIterationStart (last (e # evs)))"
  by (simp add: settled_def ordered_append)

lemma settled_lastEvent:
  "settled tr \<Longrightarrow> (case lastEvent tr of None \<Rightarrow> True | Some e \<Rightarrow> \<not> isIterationStart e)"
  by (auto simp: settled_def lastEvent_def)

lemma settled_ordered: "settled tr \<Longrightarrow> ordered tr"
  by (simp add: settled_def)

lemma tryButton_trace:
  assumes "tryButton env j loc sub s = (r, s')"
  shows "\<exists>evs. snd s' = snd s @ evs \<and> quiet evs \<and> (settled (snd s) \<longrightarrow> settled (snd s'))"
proof -
  have st: "settled (tr @ e # evs)"
    if "settled tr" "\<not> isAttempt e" "follows (Some e) evs" "\<not> isIterationStart (last (e # evs))"
    for tr e evs
    unfolding settled_append
    using that settled_lastEvent [OF that(1)] settled_ordered [OF that(1)]
    by (auto simp: mayFollow_def split: option.splits)
  show ?thesis
    using assms unfolding tryButton_def hasErrors_def
    by (auto simp: ret_eq quiet_def st mayFollow_def elim!: andThenE
        dest!: isPresent_trace clickWhenClickable_trace
        split: sum.splits if_splits)
qed

lemma handleInlineErrors_settles:
  assumes "handleInlineErrors env profile s = (r, s')"
  shows "\<exists>evs. snd s' = snd s @ evs \<and> quiet evs \<and> (ordered (snd s) \<longrightarrow> settled (snd s'))"
  using handleInlineErrors_trace [OF assms]
  by (auto simp: quiet_def settled_append mayFollow_def lastEvent_def)

lemma quiet_append: "quiet (xs @ ys) = (quiet xs \<and> quiet ys)"
  by (simp add: quiet_def)

lemma buttons_loop_trace:
  assumes "buttons_loop env profile j locs sub s = (r, s')"
  shows "\<exists>evs. snd s' = snd s @ evs \<and> quiet evs \<and> (settled (snd s) \<longrightarrow> settled (snd s'))"
  using assms
proof (induction locs arbitrary: j sub s)
  case Nil
  then show ?case by (simp add: ret_eq quiet_def)
next
  case (Cons loc locs)
  from Cons.prems have
    "andThen (tryButton env j loc sub)
       (\<lambda>(stop, sub'). if stop then ret sub'
          else andThen (handleInlineErrors env profile)
                 (\<lambda>_. buttons_loop env profile (Suc j) locs sub')) s = (r, s')"
    by simp
  then show ?case
  proof (cases rule: andThenE)
    case (panics p)
    then show ?thesis using tryButton_trace by blast
  next
    case (goes_on a s1)
    obtain stop sub' where a: "a = (stop, sub')" by (cases a)
    from tryButton_trace [OF goes_on(1)] obtain evs1 where
      e1: "snd s1 = snd s @ evs1" "quiet evs1" "settled (snd s) \<longrightarrow> settled (snd s1)"
      by blast
    show ?thesis
    proof (cases stop)
      case True
      with goes_on(2) a e1 show ?thesis by (auto simp: ret_eq)
    next
      case False
      with goes_on(2) a have "andThen (handleInlineErrors env profile)
            (\<lambda>_. buttons_loop env profile (Suc j) locs sub') s1 = (r, s')" by simp
      then show ?thesis
      proof (cases rule: andThenE)
        case (panics p)
        from handleInlineErrors_settles [OF panics(1)] e1 show ?thesis
          by (auto simp: quiet_append dest: settled_ordered)
      next
        case (goes_on u s2)
        from handleInlineErrors_settles [OF goes_on(1)] obtain evs2 where
          e2: "snd s2 = snd s1 @ evs2" "quiet evs2" "ordered (snd s1) \<longrightarrow> settled (snd s2)"
          by blast
        from Cons.IH [OF goes_on(2)] obtain evs3 where
          e3: "snd s' = snd s2 @ evs3" "quiet evs3" "settled (snd s2) \<longrightarrow> settled (snd s')"
          by blast
        from e1 e2 e3 show ?thesis
          by (auto simp: quiet_append dest: settled_ordered)
      qed
    qed
  qed
qed


lemma searchOffsets_append: "searchOffsets (xs @ ys) = searchOffsets xs @ searchOffsets ys"
  by (induction xs rule: searchOffsets.induct) simp_all

lemma iterations_append: "iterations (xs @ ys) = iterations xs + iterations ys"
  by (simp add: iterations_def)

lemma quiet_iterations: "quiet evs \<Longrightarrow> iterations evs = 0"
  by (induction evs) (simp_all add: quiet_def iterations_def)

lemma quiet_searchOffsets: "quiet evs \<Longrightarrow> searchOffsets evs = []"
proof (induction evs)
  case Nil
  show ?case by simp
next
  case (Cons e evs)
  then have "searchOffsets [e] = []" "searchOffsets evs = []"
    by (simp_all add: quiet_def)
  then show ?case
    using searchOffsets_append [of "[e]" evs] by simp
qed

lemma andThen_emit: "andThen (emit e) f s = f () (fst s, snd s @ [e])"
  by (simp add: andThen_def emit_def)

declare wizard_loop.simps [simp del] LoadPage_scroll.simps [simp del]

lemma wizard_loop_trace:
  assumes "wizard_loop env profile i sub s = (r, s')"
  shows "\<exists>evs. snd s' = snd s @ evs \<and> searchOffsets evs = [] \<and> iterations evs \<le> 15 - i \<and>
           (settled (snd s) \<longrightarrow> settled (snd s'))"
  using assms
proof (induction env profile i sub arbitrary: s rule: wizard_loop.induct)
  case (1 env profile i sub)
  show ?case
  proof (cases "i < 15 \<and> \<not> sub")
    case False
    with "1.prems" show ?thesis
      by (subst (asm) wizard_loop.simps) (auto simp: ret_eq iterations_def)
  next
    case True
    with "1.prems" have run:
      "andThen (emit (IterationStarts i)) (\<lambda>_.
       andThen (handleInlineErrors env profile) (\<lambda>_.
       andThen (buttons_loop env profile 0 buttons sub) (\<lambda>sub'.
         wizard_loop env profile (Suc i) sub'))) s = (r, s')"
      by (subst (asm) wizard_loop.simps) simp
    define s0 where "s0 = (fst s, snd s @ [IterationStarts i])"
    have o0: "settled (snd s) \<longrightarrow> ordered (snd s0)"
      using settled_lastEvent [of "snd s"]
      by (auto simp: s0_def ordered_append settled_def mayFollow_def split: option.splits)
    have i15: "i < 15" using True by simp
    have it: "iterations (IterationStarts i # evs) = Suc (iterations evs)" for evs
      by (simp add: iterations_def)
    from run have run1:
      "andThen (handleInlineErrors env profile) (\<lambda>_.
       andThen (buttons_loop env profile 0 buttons sub) (\<lambda>sub'.
         wizard_loop env profile (Suc i) sub')) s0 = (r, s')"
      by (simp add: s0_def andThen_emit)
    then show ?thesis
    proof (cases rule: andThenE)
      case (panics p)
      from handleInlineErrors_settles [OF panics(1)] obtain evs1 where
        e1: "snd s' = snd s0 @ evs1" "quiet evs1" "ordered (snd s0) \<longrightarrow> settled (snd s')"
        by blast
      have "snd s' = snd s @ (IterationStarts i # evs1)"
        using e1 by (simp add: s0_def)
      moreover have "iterations (IterationStarts i # evs1) \<le> 15 - i"
        using i15 quiet_iterations [OF e1(2)] by (simp add: it)
      moreover have "searchOffsets (IterationStarts i # evs1) = []"
        using quiet_searchOffsets [OF e1(2)] by simp
      ultimately show ?thesis using e1 o0 by blast
    next
      case (goes_on u s1)
      from handleInlineErrors_settles [OF goes_on(1)] obtain evs1 where
        e1: "snd s1 = snd s0 @ evs1" "quiet evs1" "ordered (snd s0) \<longrightarrow> settled (snd s1)"
        by blast
      from goes_on(2) show ?thesis
      proof (cases rule: andThenE)
        case (panics p)
        from buttons_loop_trace [OF panics(1)] obtain evs2 where
          e2: "snd s' = snd s1 @ evs2" "quiet evs2" "settled (snd s1) \<longrightarrow> settled (snd s')"
          by blast
        have "snd s' = snd s @ (IterationStarts i # evs1 @ evs2)"
          using e1 e2 by (simp add: s0_def)
        moreover have "iterations (IterationStarts i # evs1 @ evs2) \<le> 15 - i"
          using i15 quiet_iterations [OF e1(2)] quiet_iterations [OF e2(2)]
          by (simp add: it iterations_append)
        moreover have "searchOffsets (IterationStarts i # evs1 @ evs2) = []"
          using quiet_searchOffsets [OF e1(2)] quiet_searchOffsets [OF e2(2)]
          by (simp add: searchOffsets_append)
        ultimately show ?thesis using e1 e2 o0 by blast
      next
        case (goes_on sub' s2)
        from buttons_loop_trace [OF goes_on(1)] obtain evs2 where
          e2: "snd s2 = snd s1 @ evs2" "quiet evs2" "settled (snd s1) \<longrightarrow> settled (snd s2)"
          by blast
        from "1.IH" [OF True goes_on(2)] obtain evs3 where
          e3: "snd s' = snd s2 @ evs3" "searchOffsets evs3 = []" "iterations evs3 \<le> 15 - Suc i"
            "settled (snd s2) \<longrightarrow> settled (snd s')"
          by blast
        have "snd s' = snd s @ (IterationStarts i # evs1 @ evs2 @ evs3)"
          using e1 e2 e3 by (simp add: s0_def)
        moreover have "iterations (IterationStarts i # evs1 @ evs2 @ evs3) \<le> 15 - i"
          using i15 quiet_iterations [OF e1(2)] quiet_iterations [OF e2(2)] e3(3)
          by (simp add: it iterations_append)
        moreover have "searchOffsets (IterationStarts i # evs1 @ evs2 @ evs3) = []"
          using quiet_searchOffsets [OF e1(2)] quiet_searchOffsets [OF e2(2)] e3(2)
          by (simp add: searchOffsets_append)
        ultimately show ?thesis using e1 e2 e3 o0 by blast
      qed
    qed
  qed
qed


lemma FillOutEasyApplyForm_trace:
  assumes "FillOutEasyApplyForm env profile s = (r, s')"
  shows "\<exists>evs. snd s' = snd s @ evs \<and> searchOffsets evs = [] \<and> iterations evs \<le> 15 \<and>
           (settled (snd s) \<longrightarrow> settled (snd s'))"
proof -
  obtain r1 s1 where run: "andThen (plain (Sleep env 1500 2500)) (\<lambda>_. wizard_loop env profile 0 False) s = (r1, s1)"
    by (cases "andThen (plain (Sleep env 1500 2500)) (\<lambda>_. wizard_loop env profile 0 False) s")
  obtain u s2 where fin: "plain (Sleep env 1500 2500) s1 = (u, s2)"
    by (cases "plain (Sleep env 1500 2500) s1")
  have t2: "snd s2 = snd s1"
    using fin by (rule plain_trace)
  from assms run fin have "s' = s2 \<or> s' = s1"
    by (auto simp: FillOutEasyApplyForm_def split: sum.splits halt.splits)
  with t2 have s': "snd s' = snd s1"
    by auto
  from run have "\<exists>evs. snd s1 = snd s @ evs \<and> searchOffsets evs = [] \<and> iterations evs \<le> 15 \<and>
           (settled (snd s) \<longrightarrow> settled (snd s1))"
  proof (cases rule: andThenE)
    case (panics p)
    then have "snd s1 = snd s" by (auto dest: plain_trace)
    then show ?thesis by (simp add: iterations_def)
  next
    case (goes_on a s0)
    then have "snd s0 = snd s" by (auto dest: plain_trace)
    with wizard_loop_trace [OF goes_on(2)] show ?thesis by auto
  qed
  with s' show ?thesis by simp
qed

text \<open>
  C5. In every run of \<open>FillOutEasyApplyForm\<close>, from any page and with any session, the
  trace is ordered: the start of every outer iteration is followed at once by the
  error-handling pass, before any action is attempted, and every action attempt comes
  directly after a check of the error marker that found no marker.
\<close>

theorem FillOutEasyApplyForm_ordered:
  "ordered (snd (snd (FillOutEasyApplyForm env profile (pg, []))))"
proof -
  obtain r s' where run: "FillOutEasyApplyForm env profile (pg, []) = (r, s')"
    by (cases "FillOutEasyApplyForm env profile (pg, [])")
  have "settled (snd (pg, []))"
    by (simp add: settled_def ordered_def)
  with FillOutEasyApplyForm_trace [OF run] have "settled (snd s')" by blast
  with run show ?thesis by (simp add: settled_ordered)
qed

section \<open>The result of the main loop\<close>






section \<open>Alive sessions do not panic\<close>





















section \<open>The iteration budget\<close>


section \<open>The success path of the wizard\<close>

lemma locators_distinct:
  "nextLoc \<noteq> reviewLoc" "nextLoc \<noteq> followLoc" "nextLoc \<noteq> submitLoc" "reviewLoc \<noteq> followLoc"
  "reviewLoc \<noteq> submitLoc" "followLoc \<noteq> submitLoc" "errorLoc \<noteq> nextLoc" "errorLoc \<noteq> reviewLoc"
  "errorLoc \<noteq> followLoc" "errorLoc \<noteq> submitLoc"
  by (simp_all add: nextLoc_def reviewLoc_def followLoc_def submitLoc_def errorLoc_def
      nextSel_def reviewSel_def followLabelSel_def submitSel_def errorMessageSel_def)

lemma buttons_locs: "buttons = [nextLoc, reviewLoc, followLoc, submitLoc]"
  by (simp add: buttons_def nextLoc_def reviewLoc_def followLoc_def submitLoc_def)

lemma visibleAt_simps:
  "visibleAt follow n errorLoc = False"
  "visibleAt follow 0 nextLoc = True"
  "visibleAt follow (Suc 0) nextLoc = False"
  "visibleAt follow (Suc 0) reviewLoc = True"
  "visibleAt follow (Suc (Suc 0)) submitLoc = True"
  using locators_distinct by (auto simp: visibleAt_def)

lemma stageAfter_simps:
  "stageAfter n nextLoc = Suc n" "stageAfter n reviewLoc = Suc n" "stageAfter n followLoc = n"
  "stageAfter n submitLoc = Suc n"
  using locators_distinct by (auto simp: stageAfter_def)

lemma wizard_isPresent:
  assumes "threeStepWizard env stage follow" and "loc \<in> set (errorLoc # buttons)"
  obtains s' where "isPresent env loc s = (Inr (visibleAt follow (stage (fst s)) loc), s')"
    and "stage (fst s') = stage (fst s)"
proof -
  from assms have "fst (isPresent env loc s) = Inr (visibleAt follow (stage (fst s)) loc)"
    "stage (fst (snd (isPresent env loc s))) = stage (fst s)"
    unfolding threeStepWizard_def by blast+
  then show ?thesis
    using that [of "snd (isPresent env loc s)"] by (metis prod.collapse)
qed

lemma wizard_clickWhenClickable:
  assumes "threeStepWizard env stage follow" and "loc \<in> set (errorLoc # buttons)"
    and "visibleAt follow (stage (fst s)) loc"
  obtains s' where "clickWhenClickable env loc s = (Inr None, s')"
    and "stage (fst s') = stageAfter (stage (fst s)) loc"
proof -
  from assms have "fst (clickWhenClickable env loc s) = Inr None"
    "stage (fst (snd (clickWhenClickable env loc s))) = stageAfter (stage (fst s)) loc"
    unfolding threeStepWizard_def by blast+
  then show ?thesis
    using that [of "snd (clickWhenClickable env loc s)"] by (metis prod.collapse)
qed

lemma wizard_handleInlineErrors:
  assumes "threeStepWizard env stage follow"
  obtains s' where "handleInlineErrors env profile s = (Inr (), s')"
    and "stage (fst s') = stage (fst s)"
proof -
  obtain s1 where "isPresent env errorLoc (fst s, snd s @ [HandleInlineErrorsRuns]) = (Inr False, s1)"
    "stage (fst s1) = stage (fst s)"
    using wizard_isPresent [OF assms, of errorLoc "(fst s, snd s @ [HandleInlineErrorsRuns])"]
    by (auto simp: visibleAt_simps)
  then have "handleInlineErrors env profile s = (Inr (), s1)"
    by (simp add: handleInlineErrors_def andThen_def emit_def ret_def)
  with \<open>stage (fst s1) = stage (fst s)\<close> show ?thesis
    using that by blast
qed

lemma wizard_tryButton:
  assumes "threeStepWizard env stage follow" and "loc \<in> set buttons"
  shows "\<exists>s'.
    tryButton env j loc sub s =
       (Inr (if visibleAt follow (stage (fst s)) loc then (j = 3 \<or> j = 0, j = 3 \<or> sub)
             else (False, sub)), s') \<and>
    stage (fst s') = (if visibleAt follow (stage (fst s)) loc
                      then stageAfter (stage (fst s)) loc else stage (fst s))"
proof -
  have mem: "loc \<in> set (errorLoc # buttons)" using assms(2) by simp
  obtain s1 where p: "isPresent env loc s = (Inr (visibleAt follow (stage (fst s)) loc), s1)"
    and st1: "stage (fst s1) = stage (fst s)"
    using wizard_isPresent [OF assms(1) mem] by blast
  show ?thesis
  proof (cases "visibleAt follow (stage (fst s)) loc")
    case False
    with p have "tryButton env j loc sub s = (Inr (False, sub), s1)"
      by (simp add: tryButton_def andThen_def ret_def)
    with False st1 show ?thesis by simp
  next
    case True
    obtain s2 where e: "isPresent env errorLoc s1 = (Inr False, s2)"
      and st2: "stage (fst s2) = stage (fst s1)"
      using wizard_isPresent [OF assms(1), of errorLoc s1] by (auto simp: visibleAt_simps)
    have "visibleAt follow (stage (fst s2)) loc"
      using True st1 st2 by simp
    then obtain s3 where c: "clickWhenClickable env loc s2 = (Inr None, s3)"
      and st3: "stage (fst s3) = stageAfter (stage (fst s2)) loc"
      using wizard_clickWhenClickable [OF assms(1) mem] by blast
    from p e c True have
      "tryButton env j loc sub s = (Inr (j = 3 \<or> j = 0, j = 3 \<or> sub), s3)"
      by (auto simp: tryButton_def hasErrors_def andThen_def ret_def)
    with True st1 st2 st3 show ?thesis by simp
  qed
qed

lemma wizard_buttons_first:
  assumes "threeStepWizard env stage follow" and "stage (fst s) = 0"
  obtains s' where "buttons_loop env profile 0 buttons False s = (Inr False, s')"
    and "stage (fst s') = Suc 0"
proof -
  obtain s1 where "tryButton env 0 nextLoc False s = (Inr (True, False), s1)" "stage (fst s1) = Suc 0"
    using wizard_tryButton [OF assms(1), of nextLoc 0 False s] assms(2)
    by (auto simp: buttons_locs visibleAt_simps stageAfter_simps)
  then show ?thesis
    using that by (simp add: buttons_locs andThen_def ret_def)
qed

lemma wizard_buttons_second:
  assumes "threeStepWizard env stage follow" and "stage (fst s) = Suc 0"
  obtains s' where "buttons_loop env profile 0 buttons False s = (Inr True, s')"
proof -
  note H = assms(1)
  obtain s1 where t0: "tryButton env 0 nextLoc False s = (Inr (False, False), s1)"
    and st1: "stage (fst s1) = Suc 0"
    using wizard_tryButton [OF H, of nextLoc 0 False s] assms(2)
    by (auto simp: buttons_locs visibleAt_simps)
  obtain s2 where h0: "handleInlineErrors env profile s1 = (Inr (), s2)"
    and st2: "stage (fst s2) = Suc 0"
    using wizard_handleInlineErrors [OF H, of profile s1] st1 by auto
  obtain s3 where t1: "tryButton env (Suc 0) reviewLoc False s2 = (Inr (False, False), s3)"
    and st3: "stage (fst s3) = Suc (Suc 0)"
    using wizard_tryButton [OF H, of reviewLoc "Suc 0" False s2] st2
    by (auto simp: buttons_locs visibleAt_simps stageAfter_simps)
  obtain s4 where h1: "handleInlineErrors env profile s3 = (Inr (), s4)"
    and st4: "stage (fst s4) = Suc (Suc 0)"
    using wizard_handleInlineErrors [OF H, of profile s3] st3 by auto
  obtain s5 where t2: "tryButton env (Suc (Suc 0)) followLoc False s4 = (Inr (False, False), s5)"
    and st5: "stage (fst s5) = Suc (Suc 0)"
    using wizard_tryButton [OF H, of followLoc "Suc (Suc 0)" False s4] st4
    by (auto simp: buttons_locs stageAfter_simps split: if_splits)
  obtain s6 where h2: "handleInlineErrors env profile s5 = (Inr (), s6)"
    and st6: "stage (fst s6) = Suc (Suc 0)"
    using wizard_handleInlineErrors [OF H, of profile s5] st5 by auto
  obtain s7 where t3: "tryButton env (Suc (Suc (Suc 0))) submitLoc False s6 = (Inr (True, True), s7)"
    using wizard_tryButton [OF H, of submitLoc "Suc (Suc (Suc 0))" False s6] st6
    by (auto simp: buttons_locs visibleAt_simps)
  from t0 h0 t1 h1 t2 h2 t3 have "buttons_loop env profile 0 buttons False s = (Inr True, s7)"
    by (simp add: buttons_locs andThen_def ret_def)
  then show ?thesis using that by blast
qed

lemma iteration_events:
  assumes "handleInlineErrors env profile (fst s, snd s @ [IterationStarts i]) = (r1, s1)"
    and "buttons_loop env profile 0 buttons sub s1 = (r2, s2)"
  shows "iterations (snd s2) = Suc (iterations (snd s))"
proof -
  from handleInlineErrors_settles [OF assms(1)] obtain evs1 where
    e1: "snd s1 = (snd s @ [IterationStarts i]) @ evs1" "quiet evs1"
    by auto
  from buttons_loop_trace [OF assms(2)] obtain evs2 where
    e2: "snd s2 = snd s1 @ evs2" "quiet evs2"
    by auto
  have "iterations (IterationStarts i # evs) = Suc (iterations evs)" for evs
    by (simp add: iterations_def)
  with e1 e2 quiet_iterations [OF e1(2)] quiet_iterations [OF e2(2)] show ?thesis
    by (simp add: iterations_append)
qed

lemma wizard_run:
  assumes "threeStepWizard env stage follow" and "stage (fst s) = 0"
  obtains s' where "wizard_loop env profile 0 False s = (Inr True, s')"
    and "iterations (snd s') = iterations (snd s) + 2"
proof -
  note H = assms(1)
  define s0 where "s0 = (fst s, snd s @ [IterationStarts 0])"
  obtain s1 where h1: "handleInlineErrors env profile s0 = (Inr (), s1)"
    and st1: "stage (fst s1) = 0"
    using wizard_handleInlineErrors [OF H, of profile s0] assms(2) by (auto simp: s0_def)
  obtain s2 where b1: "buttons_loop env profile 0 buttons False s1 = (Inr False, s2)"
    and st2: "stage (fst s2) = Suc 0"
    using wizard_buttons_first [OF H st1] by blast
  have i2: "iterations (snd s2) = Suc (iterations (snd s))"
    using h1 b1 unfolding s0_def by (rule iteration_events)
  define s3 where "s3 = (fst s2, snd s2 @ [IterationStarts (Suc 0)])"
  obtain s4 where h2: "handleInlineErrors env profile s3 = (Inr (), s4)"
    and st4: "stage (fst s4) = Suc 0"
    using wizard_handleInlineErrors [OF H, of profile s3] st2 by (auto simp: s3_def)
  obtain s5 where b2: "buttons_loop env profile 0 buttons False s4 = (Inr True, s5)"
    using wizard_buttons_second [OF H st4] by blast
  have i5: "iterations (snd s5) = Suc (iterations (snd s2))"
    using h2 b2 unfolding s3_def by (rule iteration_events)
  have "wizard_loop env profile (Suc (Suc 0)) True s5 = (Inr True, s5)"
    by (subst wizard_loop.simps) (simp add: ret_def)
  moreover have "wizard_loop env profile (Suc 0) False s2 =
      andThen (handleInlineErrors env profile) (\<lambda>_.
      andThen (buttons_loop env profile 0 buttons False) (wizard_loop env profile (Suc (Suc 0)))) s3"
    by (subst wizard_loop.simps) (simp add: andThen_emit s3_def)
  ultimately have "wizard_loop env profile (Suc 0) False s2 = (Inr True, s5)"
    using h2 b2 by (simp add: andThen_def)
  moreover have "wizard_loop env profile 0 False s =
      andThen (handleInlineErrors env profile) (\<lambda>_.
      andThen (buttons_loop env profile 0 buttons False) (wizard_loop env profile (Suc 0))) s0"
    by (subst wizard_loop.simps) (simp add: andThen_emit s0_def)
  ultimately have "wizard_loop env profile 0 False s = (Inr True, s5)"
    using h1 b1 by (simp add: andThen_def)
  with i2 i5 show ?thesis using that by simp
qed

text \<open>
  C8, as amended. In every session that shows a wizard of three steps, \<open>FillOutEasyApplyForm\<close>
  started at the first step returns \<open>submitted = true\<close> with a nil error within at most 3
  outer iterations. In such a session the advance action succeeds once, then the review
  action, then the submit action, and no error marker shows; what is present depends on the
  step alone, and an action on a present button leads to the next step at once, so that the
  button of the next step is there at the next look.
\<close>

theorem FillOutEasyApplyForm_three_steps:
  assumes "threeStepWizard env stage follow" and "stage pg = 0"
  shows "fst (FillOutEasyApplyForm env profile (pg, [])) = Inr (True, None) \<and>
         iterations (snd (snd (FillOutEasyApplyForm env profile (pg, [])))) \<le> 3"
proof -
  obtain u pg1 where sl: "Sleep env 1500 2500 pg = (u, pg1)"
    by (cases "Sleep env 1500 2500 pg")
  have "stage pg1 = stage pg"
    using assms(1) sl unfolding threeStepWizard_def by (metis snd_conv)
  with assms(2) have st: "stage (fst (pg1, [] :: event list)) = 0" by simp
  obtain s' where w: "wizard_loop env profile 0 False (pg1, []) = (Inr True, s')"
    and it: "iterations (snd s') = iterations (snd (pg1, [] :: event list)) + 2"
    using wizard_run [OF assms(1) st] by blast
  obtain u2 pg2 where sl2: "Sleep env 1500 2500 (fst s') = (u2, pg2)"
    by (cases "Sleep env 1500 2500 (fst s')")
  from sl w sl2 have "FillOutEasyApplyForm env profile (pg, []) = (Inr (True, None), (pg2, snd s'))"
    by (simp add: FillOutEasyApplyForm_def andThen_def plain_def)
  with it show ?thesis by (simp add: iterations_def)
qed

section \<open>The scripted session\<close>

lemmas scripted_defs = scriptedSession_def prog_defs

lemma button_locators:
  "kind nextLoc = ''css''" "kind reviewLoc = ''css''" "kind followLoc = ''css''"
  "kind submitLoc = ''css''" "kind errorLoc = ''css''"
  "q nextLoc = nextSel" "q reviewLoc = reviewSel" "q followLoc = followLabelSel"
  "q submitLoc = submitSel" "q errorLoc = errorMessageSel"
  by (simp_all add: nextLoc_def reviewLoc_def followLoc_def submitLoc_def errorLoc_def)

lemma selectors_distinct:
  "nextSel \<noteq> reviewSel" "nextSel \<noteq> followLabelSel" "nextSel \<noteq> submitSel"
  "reviewSel \<noteq> followLabelSel" "reviewSel \<noteq> submitSel" "followLabelSel \<noteq> submitSel"
  "errorMessageSel \<noteq> nextSel" "errorMessageSel \<noteq> reviewSel" "errorMessageSel \<noteq> followLabelSel"
  "errorMessageSel \<noteq> submitSel"
  "nextSel \<noteq> ''.scaffold-layout__list''" "reviewSel \<noteq> ''.scaffold-layout__list''"
  "followLabelSel \<noteq> ''.scaffold-layout__list''" "submitSel \<noteq> ''.scaffold-layout__list''"
  "errorMessageSel \<noteq> ''.scaffold-layout__list''"
  by (simp_all add: nextSel_def reviewSel_def followLabelSel_def submitSel_def errorMessageSel_def)


lemmas selectors_neq = selectors_distinct selectors_distinct [symmetric]

lemmas locators_neq = locators_distinct locators_distinct [symmetric]

lemma scripted_visible:
  "visibleAt (\<lambda>n. n = 2 \<and> b) n errorLoc = buttonShown b n (q errorLoc)"
  "visibleAt (\<lambda>n. n = 2 \<and> b) n nextLoc = buttonShown b n (q nextLoc)"
  "visibleAt (\<lambda>n. n = 2 \<and> b) n reviewLoc = buttonShown b n (q reviewLoc)"
  "visibleAt (\<lambda>n. n = 2 \<and> b) n followLoc = buttonShown b n (q followLoc)"
  "visibleAt (\<lambda>n. n = 2 \<and> b) n submitLoc = buttonShown b n (q submitLoc)"
  by (simp_all add: visibleAt_def buttonShown_def button_locators selectors_neq locators_neq
      conj_commute)

lemma scripted_press:
  "buttonShown b (step pg) nextSel \<Longrightarrow>
     step (pressEnter (pg\<lparr>focused := Some (handleOf nextSel)\<rparr>)) = Suc (step pg)"
  "buttonShown b (step pg) reviewSel \<Longrightarrow>
     step (pressEnter (pg\<lparr>focused := Some (handleOf reviewSel)\<rparr>)) = Suc (step pg)"
  "buttonShown b (step pg) followLabelSel \<Longrightarrow>
     step (pressEnter (pg\<lparr>focused := Some (handleOf followLabelSel)\<rparr>)) = step pg"
  "buttonShown b (step pg) submitSel \<Longrightarrow>
     step (pressEnter (pg\<lparr>focused := Some (handleOf submitSel)\<rparr>)) = Suc (step pg)"
  by (simp_all add: buttonShown_def pressEnter_def handleOf_def selectors_neq)

lemma scripted_isPresent:
  assumes "kind loc = ''css''"
  shows "isPresent (scriptedSession b) loc s =
     (Inr (buttonShown b (step (fst s)) (q loc)),
      (fst s, snd s @ [PresenceChecked loc (buttonShown b (step (fst s)) (q loc))]))"
  using assms by (simp add: isPresent_def scripted_defs)

lemma scripted_clickWhenClickable:
  assumes "kind loc = ''css''"
  shows "clickWhenClickable (scriptedSession b) loc s =
     (if buttonShown b (step (fst s)) (q loc)
      then (Inr None, (pressEnter ((fst s)\<lparr>focused := Some (handleOf (q loc))\<rparr>),
                       snd s @ [ActionAttempted loc]))
      else (Inr (Some (ErrOther ''context deadline exceeded'')),
            (fst s, snd s @ [ActionAttempted loc])))"
  using assms by (simp add: clickWhenClickable_def scripted_defs)

lemma scripted_handleInlineErrors:
  "handleInlineErrors (scriptedSession b) profile s =
     (Inr (), (fst s, snd s @ [HandleInlineErrorsRuns, PresenceChecked errorLoc False]))"
proof -
  have e: "kind errorLoc = ''css''" "\<not> buttonShown b n (q errorLoc)" for n
    by (simp_all add: errorLoc_def errorMessageSel_def buttonShown_def nextSel_def reviewSel_def
        submitSel_def followLabelSel_def)
  show ?thesis
    by (simp add: handleInlineErrors_def andThen_def emit_def ret_def scripted_isPresent [OF e(1)] e(2))
qed



lemma scripted_wizard_locator:
  assumes "kind loc = ''css''"
    and "\<And>n. visibleAt (\<lambda>n. n = 2 \<and> b) n loc = buttonShown b n (q loc)"
    and "\<And>pg. buttonShown b (step pg) (q loc) \<Longrightarrow>
           step (pressEnter (pg\<lparr>focused := Some (handleOf (q loc))\<rparr>)) = stageAfter (step pg) loc"
  shows "fst (isPresent (scriptedSession b) loc s) = Inr (visibleAt (\<lambda>n. n = 2 \<and> b) (step (fst s)) loc) \<and>
         step (fst (snd (isPresent (scriptedSession b) loc s))) = step (fst s) \<and>
         (visibleAt (\<lambda>n. n = 2 \<and> b) (step (fst s)) loc \<longrightarrow>
            fst (clickWhenClickable (scriptedSession b) loc s) = Inr None \<and>
            step (fst (snd (clickWhenClickable (scriptedSession b) loc s))) = stageAfter (step (fst s)) loc)"
  by (simp add: scripted_isPresent [OF assms(1)] scripted_clickWhenClickable [OF assms(1)]
      assms(2) assms(3))

lemma scripted_threeStepWizard:
  "threeStepWizard (scriptedSession b) step (\<lambda>n. n = 2 \<and> b)"
proof -
  have sl: "step (snd (Sleep (scriptedSession b) lo hi pg)) = step pg" for lo hi pg
    by (simp add: scriptedSession_def)
  have noerr: "\<not> buttonShown b n errorMessageSel" for n
    by (simp add: buttonShown_def selectors_neq)
  have each:
    "fst (isPresent (scriptedSession b) loc s) = Inr (visibleAt (\<lambda>n. n = 2 \<and> b) (step (fst s)) loc) \<and>
     step (fst (snd (isPresent (scriptedSession b) loc s))) = step (fst s) \<and>
     (visibleAt (\<lambda>n. n = 2 \<and> b) (step (fst s)) loc \<longrightarrow>
        fst (clickWhenClickable (scriptedSession b) loc s) = Inr None \<and>
        step (fst (snd (clickWhenClickable (scriptedSession b) loc s))) = stageAfter (step (fst s)) loc)"
    if "loc \<in> set (errorLoc # buttons)" for loc s
  proof -
    from that consider "loc = errorLoc" | "loc = nextLoc" | "loc = reviewLoc" | "loc = followLoc"
      | "loc = submitLoc"
      by (auto simp: buttons_locs)
    then show ?thesis
    proof cases
      case 1
      show ?thesis unfolding 1
        by (rule scripted_wizard_locator)
           (simp_all add: button_locators selectors_neq scripted_visible noerr)
    next
      case 2
      show ?thesis unfolding 2
        by (rule scripted_wizard_locator)
           (simp_all add: button_locators selectors_neq scripted_visible scripted_press stageAfter_simps)
    next
      case 3
      show ?thesis unfolding 3
        by (rule scripted_wizard_locator)
           (simp_all add: button_locators selectors_neq scripted_visible scripted_press stageAfter_simps)
    next
      case 4
      show ?thesis unfolding 4
        by (rule scripted_wizard_locator)
           (simp_all add: button_locators selectors_neq scripted_visible scripted_press stageAfter_simps)
    next
      case 5
      show ?thesis unfolding 5
        by (rule scripted_wizard_locator)
           (simp_all add: button_locators selectors_neq scripted_visible scripted_press stageAfter_simps)
    qed
  qed
  show ?thesis
    unfolding threeStepWizard_def using sl each by blast
qed

theorem FillOutEasyApplyForm_three_steps_witness:
  "threeStepWizard (scriptedSession True) step (\<lambda>n. n = 2 \<and> True) \<and> step firstStep = 0 \<and>
   fst (FillOutEasyApplyForm (scriptedSession True) exampleProfile (firstStep, [])) = Inr (True, None) \<and>
   iterations (snd (snd (FillOutEasyApplyForm (scriptedSession True) exampleProfile (firstStep, [])))) \<le> 3"
proof -
  have s0: "step firstStep = 0" by (simp add: firstStep_def)
  show ?thesis
    using FillOutEasyApplyForm_three_steps [OF scripted_threeStepWizard s0, of True exampleProfile]
      scripted_threeStepWizard [of True] s0
    by simp
qed

lemmas late_defs = lateSession_def scriptedSession_def prog_defs

lemma late_isPresent:
  assumes "kind loc = ''css''"
  shows "isPresent lateSession loc s =
     (Inr (lateShown (step (fst s)) (q loc)),
      (lateLookup (q loc) (fst s), snd s @ [PresenceChecked loc (lateShown (step (fst s)) (q loc))]))"
  using assms by (simp add: isPresent_def late_defs)

lemma late_clickWhenClickable:
  assumes "kind loc = ''css''"
  shows "clickWhenClickable lateSession loc s =
     (if lateShown (step (fst s)) (q loc)
      then (Inr None, (latePress ((lateLookup (q loc) (fst s))\<lparr>focused := Some (handleOf (q loc))\<rparr>),
                       snd s @ [ActionAttempted loc]))
      else (Inr (Some (ErrOther ''context deadline exceeded'')),
            (lateLookup (q loc) (fst s), snd s @ [ActionAttempted loc])))"
  using assms by (simp add: clickWhenClickable_def late_defs)

lemma late_handleInlineErrors:
  "handleInlineErrors lateSession profile s =
     (Inr (), (fst s, snd s @ [HandleInlineErrorsRuns, PresenceChecked errorLoc False]))"
proof -
  have e: "kind errorLoc = ''css''" "\<not> lateShown n (q errorLoc)" "lateLookup (q errorLoc) pg = pg" for n pg
    by (simp_all add: button_locators lateShown_def lateLookup_def selectors_neq)
  show ?thesis
    by (simp add: handleInlineErrors_def andThen_def emit_def ret_def late_isPresent [OF e(1)] e(2) e(3))
qed

lemma late_tryButton:
  assumes "kind loc = ''css''"
  shows "tryButton lateSession j loc sub s =
    (if lateShown (step (fst s)) (q loc) then
       (Inr (j = 3 \<or> j = 0, j = 3 \<or> sub),
        (latePress ((lateLookup (q loc) (lateLookup (q loc) (fst s)))\<lparr>focused := Some (handleOf (q loc))\<rparr>),
         snd s @ [PresenceChecked loc True, PresenceChecked errorLoc False, ActionAttempted loc]))
     else (Inr (False, sub), (lateLookup (q loc) (fst s), snd s @ [PresenceChecked loc False])))"
proof -
  have e: "kind errorLoc = ''css''" "\<not> lateShown n (q errorLoc)" "lateLookup (q errorLoc) pg = pg" for n pg
    by (simp_all add: button_locators lateShown_def lateLookup_def selectors_neq)
  have l: "lateShown (step (fst s)) (q loc) \<Longrightarrow> lateLookup (q loc) (fst s) = fst s"
    by (auto simp: lateShown_def lateLookup_def)
  show ?thesis
    by (auto simp add: tryButton_def hasErrors_def andThen_def ret_def late_isPresent [OF assms]
        late_isPresent [OF e(1)] e(2) e(3) late_clickWhenClickable [OF assms] l)
qed

lemma attempts_append: "attempts (xs @ ys) = attempts xs @ attempts ys"
  by (induction xs rule: attempts.induct) simp_all

lemmas late_eval = buttons_locs late_tryButton late_handleInlineErrors andThen_def ret_def
  button_locators lateShown_def lateLookup_def latePress_def handleOf_def selectors_neq
  quiet_def locators_neq

lemma late_round:
  assumes "i < 15"
  shows
  "\<exists>evs. wizard_loop lateSession profile i False (\<lparr>step = 0, focused = f\<rparr>, tr)
     = wizard_loop lateSession profile (Suc i) False
         (\<lparr>step = 1, focused = Some 1\<rparr>, tr @ IterationStarts i # evs)
     \<and> quiet evs \<and> attempts evs = [nextLoc] \<and> PresenceChecked errorLoc True \<notin> set evs"
  "\<exists>evs. wizard_loop lateSession profile i False (\<lparr>step = 1, focused = f\<rparr>, tr)
     = wizard_loop lateSession profile (Suc i) False
         (\<lparr>step = 3, focused = Some 2\<rparr>, tr @ IterationStarts i # evs)
     \<and> quiet evs \<and> attempts evs = [reviewLoc] \<and> PresenceChecked errorLoc True \<notin> set evs"
  "\<exists>evs. wizard_loop lateSession profile i False (\<lparr>step = 3, focused = f\<rparr>, tr)
     = wizard_loop lateSession profile (Suc i) False
         (\<lparr>step = 4, focused = f\<rparr>, tr @ IterationStarts i # evs)
     \<and> quiet evs \<and> attempts evs = [] \<and> PresenceChecked errorLoc True \<notin> set evs"
  "\<exists>evs. wizard_loop lateSession profile i False (\<lparr>step = 4, focused = f\<rparr>, tr)
     = wizard_loop lateSession profile (Suc i) False
         (\<lparr>step = 5, focused = f\<rparr>, tr @ IterationStarts i # evs)
     \<and> quiet evs \<and> attempts evs = [] \<and> PresenceChecked errorLoc True \<notin> set evs"
  "\<exists>evs. wizard_loop lateSession profile i False (\<lparr>step = 5, focused = f\<rparr>, tr)
     = wizard_loop lateSession profile (Suc i) True
         (\<lparr>step = 6, focused = Some 4\<rparr>, tr @ IterationStarts i # evs)
     \<and> quiet evs \<and> attempts evs = [submitLoc] \<and> PresenceChecked errorLoc True \<notin> set evs"
  using assms
  by (subst wizard_loop.simps, simp add: andThen_emit, simp add: late_eval)+

text \<open>
  The claim as stated fails in a session that renders the submit button late. The advance
  action succeeds once, then the review action, then the submit action, the only actions
  attempted, and no error marker shows; the engine returns \<open>submitted = true\<close>, in its fifth
  outer iteration.
\<close>

theorem FillOutEasyApplyForm_late_counterexample:
  "fst (FillOutEasyApplyForm lateSession exampleProfile (firstStep, [])) = Inr (True, None) \<and>
   iterations (snd (snd (FillOutEasyApplyForm lateSession exampleProfile (firstStep, [])))) = 5 \<and>
   attempts (snd (snd (FillOutEasyApplyForm lateSession exampleProfile (firstStep, []))))
     = [nextLoc, reviewLoc, submitLoc] \<and>
   PresenceChecked errorLoc True
     \<notin> set (snd (snd (FillOutEasyApplyForm lateSession exampleProfile (firstStep, []))))"
proof -
  let ?loop = "wizard_loop lateSession exampleProfile"
  obtain evs0 where r0: "?loop 0 False (firstStep, [])
      = ?loop 1 False (\<lparr>step = 1, focused = Some 1\<rparr>, [] @ IterationStarts 0 # evs0)"
    and e0: "quiet evs0" "attempts evs0 = [nextLoc]" "PresenceChecked errorLoc True \<notin> set evs0"
    using late_round(1) [of 0 exampleProfile None "[]"] by (auto simp: firstStep_def)
  define tr1 where "tr1 = [] @ IterationStarts 0 # evs0"
  obtain evs1 where r1: "?loop 1 False (\<lparr>step = 1, focused = Some 1\<rparr>, tr1)
      = ?loop 2 False (\<lparr>step = 3, focused = Some 2\<rparr>, tr1 @ IterationStarts 1 # evs1)"
    and e1: "quiet evs1" "attempts evs1 = [reviewLoc]" "PresenceChecked errorLoc True \<notin> set evs1"
    using late_round(2) [of 1 exampleProfile "Some 1" tr1] by (auto simp: numeral_2_eq_2)
  define tr2 where "tr2 = tr1 @ IterationStarts 1 # evs1"
  obtain evs2 where r2: "?loop 2 False (\<lparr>step = 3, focused = Some 2\<rparr>, tr2)
      = ?loop 3 False (\<lparr>step = 4, focused = Some 2\<rparr>, tr2 @ IterationStarts 2 # evs2)"
    and e2: "quiet evs2" "attempts evs2 = []" "PresenceChecked errorLoc True \<notin> set evs2"
    using late_round(3) [of 2 exampleProfile "Some 2" tr2] by (auto simp: numeral_3_eq_3 numeral_2_eq_2)
  define tr3 where "tr3 = tr2 @ IterationStarts 2 # evs2"
  obtain evs3 where r3: "?loop 3 False (\<lparr>step = 4, focused = Some 2\<rparr>, tr3)
      = ?loop 4 False (\<lparr>step = 5, focused = Some 2\<rparr>, tr3 @ IterationStarts 3 # evs3)"
    and e3: "quiet evs3" "attempts evs3 = []" "PresenceChecked errorLoc True \<notin> set evs3"
    using late_round(4) [of 3 exampleProfile "Some 2" tr3] by (auto simp: eval_nat_numeral)
  define tr4 where "tr4 = tr3 @ IterationStarts 3 # evs3"
  obtain evs4 where r4: "?loop 4 False (\<lparr>step = 5, focused = Some 2\<rparr>, tr4)
      = ?loop 5 True (\<lparr>step = 6, focused = Some 4\<rparr>, tr4 @ IterationStarts 4 # evs4)"
    and e4: "quiet evs4" "attempts evs4 = [submitLoc]" "PresenceChecked errorLoc True \<notin> set evs4"
    using late_round(5) [of 4 exampleProfile "Some 2" tr4] by (auto simp: eval_nat_numeral)
  define tr5 where "tr5 = tr4 @ IterationStarts 4 # evs4"
  have r5: "?loop 5 True (\<lparr>step = 6, focused = Some 4\<rparr>, tr5)
      = (Inr True, (\<lparr>step = 6, focused = Some 4\<rparr>, tr5))"
    by (subst wizard_loop.simps) (simp add: ret_def)
  have loop: "?loop 0 False (firstStep, []) = (Inr True, (\<lparr>step = 6, focused = Some 4\<rparr>, tr5))"
    using r0 r1 r2 r3 r4 r5 by (simp add: tr1_def tr2_def tr3_def tr4_def tr5_def)
  have sl: "plain (Sleep lateSession lo hi) s = (Inr (), s)" for lo hi and s :: "wizardPage run"
    by (simp add: late_defs)
  have run: "FillOutEasyApplyForm lateSession exampleProfile (firstStep, [])
      = (Inr (True, None), (\<lparr>step = 6, focused = Some 4\<rparr>, tr5))"
    by (simp add: FillOutEasyApplyForm_def andThen_def sl loop)
  have it: "iterations tr5 = 5"
    unfolding tr5_def tr4_def tr3_def tr2_def tr1_def
    using quiet_iterations [OF e0(1)] quiet_iterations [OF e1(1)] quiet_iterations [OF e2(1)]
      quiet_iterations [OF e3(1)] quiet_iterations [OF e4(1)]
    by (simp add: iterations_def)
  have at: "attempts tr5 = [nextLoc, reviewLoc, submitLoc]"
    unfolding tr5_def tr4_def tr3_def tr2_def tr1_def
    by (simp add: attempts_append e0 e1 e2 e3 e4)
  have ne: "PresenceChecked errorLoc True \<notin> set tr5"
    unfolding tr5_def tr4_def tr3_def tr2_def tr1_def
    using e0 e1 e2 e3 e4 by simp
  from run it at ne show ?thesis by simp
qed










lemma scripted_first_action:
  "ActionAttempted nextLoc \<in> set (snd (snd (wizard_loop (scriptedSession True) profile 0 False (firstStep, []))))"
proof -
  define s1 :: "wizardPage run" where
    "s1 = (firstStep, [IterationStarts 0, HandleInlineErrorsRuns, PresenceChecked errorLoc False])"
  have h: "handleInlineErrors (scriptedSession True) profile (firstStep, [IterationStarts 0]) = (Inr (), s1)"
    by (simp add: scripted_handleInlineErrors s1_def)
  obtain pg2 where b: "buttons_loop (scriptedSession True) profile 0 buttons False s1 =
      (Inr False, (pg2, snd s1 @ [PresenceChecked nextLoc True, PresenceChecked errorLoc False,
                                 ActionAttempted nextLoc]))"
    by (simp add: buttons_locs tryButton_def hasErrors_def scripted_isPresent scripted_clickWhenClickable
        andThen_def ret_def button_locators selectors_neq buttonShown_def s1_def firstStep_def)
  define s2 where "s2 = (pg2, snd s1 @ [PresenceChecked nextLoc True, PresenceChecked errorLoc False,
                                 ActionAttempted nextLoc])"
  obtain r s' where w: "wizard_loop (scriptedSession True) profile (Suc 0) False s2 = (r, s')"
    by (cases "wizard_loop (scriptedSession True) profile (Suc 0) False s2")
  from wizard_loop_trace [OF w] obtain evs where e: "snd s' = snd s2 @ evs"
    by blast
  have "wizard_loop (scriptedSession True) profile 0 False (firstStep, []) =
      andThen (handleInlineErrors (scriptedSession True) profile) (\<lambda>_.
      andThen (buttons_loop (scriptedSession True) profile 0 buttons False)
        (wizard_loop (scriptedSession True) profile (Suc 0))) (firstStep, [IterationStarts 0])"
    by (subst wizard_loop.simps) (simp add: andThen_emit)
  with h b w have "wizard_loop (scriptedSession True) profile 0 False (firstStep, []) = (r, s')"
    by (simp add: andThen_def s2_def)
  with e show ?thesis
    by (simp add: s2_def)
qed

theorem FillOutEasyApplyForm_ordered_witness:
  "ordered (snd (snd (FillOutEasyApplyForm (scriptedSession True) exampleProfile (firstStep, [])))) \<and>
   ActionAttempted nextLoc
     \<in> set (snd (snd (FillOutEasyApplyForm (scriptedSession True) exampleProfile (firstStep, []))))"
proof -
  have sl: "plain (Sleep (scriptedSession True) lo hi) s = (Inr (), s)" for lo hi and s :: "wizardPage run"
    by (simp add: scripted_defs)
  have "snd (snd (FillOutEasyApplyForm (scriptedSession True) exampleProfile (firstStep, [])))
        = snd (snd (wizard_loop (scriptedSession True) exampleProfile 0 False (firstStep, [])))"
    by (simp add: FillOutEasyApplyForm_def andThen_def sl split: prod.splits sum.splits halt.splits)
  with scripted_first_action [of exampleProfile]
    FillOutEasyApplyForm_ordered [of "scriptedSession True" exampleProfile firstStep]
  show ?thesis by simp
qed

section \<open>The offsets of the campaign loop\<close>

lemma LoadPage_scroll_trace: "LoadPage_scroll env i s = (r, s') \<Longrightarrow> snd s' = snd s"
proof (induction env i arbitrary: s rule: LoadPage_scroll.induct)
  case (1 env i)
  show ?case
  proof (cases "i < 14")
    case False
    with "1.prems" show ?thesis
      by (subst (asm) LoadPage_scroll.simps) (simp add: ret_eq)
  next
    case True
    with "1.prems" have
      "andThen (plain (MouseScroll env)) (\<lambda>err.
          case err of Some e \<Rightarrow> ret (Some e)
          | None \<Rightarrow> andThen (plain (Sleep env 2000 2000)) (\<lambda>_. LoadPage_scroll env (Suc i))) s = (r, s')"
      by (subst (asm) LoadPage_scroll.simps) simp
    then show ?thesis
    proof (cases rule: andThenE)
      case (panics p)
      then show ?thesis by (auto dest: plain_trace)
    next
      case (goes_on err s1)
      then have t1: "snd s1 = snd s" by (auto dest: plain_trace)
      show ?thesis
      proof (cases err)
        case (Some e)
        with goes_on(2) t1 show ?thesis by (simp add: ret_eq)
      next
        case None
        with goes_on(2) have "andThen (plain (Sleep env 2000 2000)) (\<lambda>_. LoadPage_scroll env (Suc i)) s1 = (r, s')"
          by simp
        then show ?thesis
        proof (cases rule: andThenE)
          case (panics p)
          with t1 show ?thesis by (auto dest: plain_trace)
        next
          case (goes_on u s2)
          then have "snd s2 = snd s1" by (auto dest: plain_trace)
          with "1.IH" [OF True goes_on(2)] t1 show ?thesis by simp
        qed
      qed
    qed
  qed
qed

lemma LoadPage_trace: "LoadPage env s = (r, s') \<Longrightarrow> snd s' = snd s"
  unfolding LoadPage_def
  by (auto simp: ret_eq elim!: andThenE dest!: plain_trace waits_trace LoadPage_scroll_trace
      split: sum.splits option.splits)

lemma GetEasyApplyButton_trace: "GetEasyApplyButton env s = (r, s') \<Longrightarrow> snd s' = snd s"
  unfolding GetEasyApplyButton_def
  by (auto simp: ret_eq elim!: andThenE dest!: must_trace split: list.splits)

lemma StartApplying_children_trace:
  "StartApplying_children env els IDs s = (r, s') \<Longrightarrow> snd s' = snd s"
  by (induction els arbitrary: IDs s)
     (auto simp: ret_eq raise_eq elim!: andThenE dest!: must_trace
        split: option.splits sum.splits prod.splits if_splits)

lemma StartApplying_links_trace:
  "StartApplying_links env els IDs s = (r, s') \<Longrightarrow> snd s' = snd s"
proof (induction els arbitrary: IDs s)
  case Nil
  then show ?case by (simp add: ret_eq)
next
  case (Cons el els)
  from Cons.prems show ?case
    by (auto elim!: andThenE dest!: must_trace StartApplying_children_trace Cons.IH)
qed


lemma StartApplying_jobs_trace:
  assumes "StartApplying_jobs env profile IDs s = (r, s')"
  shows "\<exists>evs. snd s' = snd s @ evs \<and> searchOffsets evs = []"
  using assms
proof (induction IDs arbitrary: s)
  case Nil
  then show ?case by (simp add: ret_eq)
next
  case (Cons jobID rest)
  from Cons.prems have
    "andThen (must (MustNavigate env (jobURL jobID))) (\<lambda>_.
     andThen (plain (Sleep env 2000 2000)) (\<lambda>_.
     andThen (GetEasyApplyButton env) (\<lambda>(found, err).
       if err \<noteq> None then StartApplying_jobs env profile rest
       else andThen (FillOutEasyApplyForm env profile) (\<lambda>_.
              StartApplying_jobs env profile rest)))) s = (r, s')"
    by simp
  then show ?case
  proof (cases rule: andThenE)
    case (panics p)
    then show ?thesis by (auto dest: must_trace)
  next
    case (goes_on u s1)
    then have t1: "snd s1 = snd s" by (auto dest: must_trace)
    from goes_on(2) show ?thesis
    proof (cases rule: andThenE)
      case (panics p)
      with t1 show ?thesis by (auto dest: plain_trace)
    next
      case (goes_on u2 s2)
      then have t2: "snd s2 = snd s" using t1 by (auto dest: plain_trace)
      from goes_on(2) show ?thesis
      proof (cases rule: andThenE)
        case (panics p)
        with t2 show ?thesis by (auto dest: GetEasyApplyButton_trace)
      next
        case (goes_on fe s3)
        then have t3: "snd s3 = snd s" using t2 by (auto dest: GetEasyApplyButton_trace)
        obtain found err where fe: "fe = (found, err)" by (cases fe)
        show ?thesis
        proof (cases "err \<noteq> None")
          case True
          with goes_on(2) fe have "StartApplying_jobs env profile rest s3 = (r, s')" by simp
          from Cons.IH [OF this] t3 show ?thesis by simp
        next
          case False
          with goes_on(2) fe have
            "andThen (FillOutEasyApplyForm env profile) (\<lambda>_. StartApplying_jobs env profile rest) s3 = (r, s')"
            by simp
          then show ?thesis
          proof (cases rule: andThenE)
            case (panics p)
            from FillOutEasyApplyForm_trace [OF panics(1)] t3 show ?thesis by auto
          next
            case (goes_on res s4)
            from FillOutEasyApplyForm_trace [OF goes_on(1)] obtain evs1 where
              e1: "snd s4 = snd s3 @ evs1" "searchOffsets evs1 = []" by auto
            from Cons.IH [OF goes_on(2)] obtain evs2 where
              e2: "snd s' = snd s4 @ evs2" "searchOffsets evs2 = []" by auto
            from e1 e2 t3 have "snd s' = snd s @ (evs1 @ evs2)" "searchOffsets (evs1 @ evs2) = []"
              by (simp_all add: searchOffsets_append)
            then show ?thesis by blast
          qed
        qed
      qed
    qed
  qed
qed

lemma StartApplying_loop_offsets:
  assumes "StartApplying_loop fuel env profile position location jobsPerPage IDs s = (r, s')"
  shows "\<exists>evs n. snd s' = snd s @ evs \<and> n \<le> fuel \<and> searchOffsets evs = replicate n jobsPerPage"
  using assms
proof (induction fuel arbitrary: IDs s)
  case 0
  then show ?case by (simp add: ret_eq)
next
  case (Suc fuel)
  define s0 where "s0 = (fst s, snd s @ [SearchOpened jobsPerPage])"
  have one: "\<exists>evs n. snd t = snd s @ evs \<and> n \<le> Suc fuel \<and> searchOffsets evs = replicate n jobsPerPage"
    if "snd t = snd s0" for t :: "'a run"
  proof -
    have "snd t = snd s @ [SearchOpened jobsPerPage]" "Suc 0 \<le> Suc fuel"
      "searchOffsets [SearchOpened jobsPerPage] = replicate (Suc 0) jobsPerPage"
      using that by (simp_all add: s0_def)
    then show ?thesis by blast
  qed
  from Suc.prems have
    "andThen (must (MustNavigate env (searchURL position location jobsPerPage))) (\<lambda>_.
     andThen (plain (Sleep env 1000 1000)) (\<lambda>_.
     andThen (LoadPage env) (\<lambda>err.
       case err of
         Some e \<Rightarrow> ret (Returned (ErrWrap ''failed to load page'' e))
       | None \<Rightarrow>
           andThen (must (MustElementsX env ''//div[@data-job-id]'')) (\<lambda>links.
             if links = [] then
               ret (Returned (ErrOther ''No job links found, stopping application process.''))
             else
               andThen (StartApplying_links env links IDs) (\<lambda>IDs'.
               andThen (StartApplying_jobs env profile IDs') (\<lambda>_.
                 StartApplying_loop fuel env profile position location jobsPerPage IDs')))))) s0 = (r, s')"
    by (simp add: andThen_emit s0_def)
  then show ?case
  proof (cases rule: andThenE)
    case (panics p)
    then have "snd s' = snd s0" by (auto dest: must_trace)
    then show ?thesis by (rule one)
  next
    case (goes_on u s1)
    then have t1: "snd s1 = snd s0" by (auto dest: must_trace)
    from goes_on(2) show ?thesis
    proof (cases rule: andThenE)
      case (panics p)
      with t1 have "snd s' = snd s0" by (auto dest: plain_trace)
      then show ?thesis by (rule one)
    next
      case (goes_on u2 s2)
      then have t2: "snd s2 = snd s0" using t1 by (auto dest: plain_trace)
      from goes_on(2) show ?thesis
      proof (cases rule: andThenE)
        case (panics p)
        with t2 have "snd s' = snd s0" by (auto dest: LoadPage_trace)
        then show ?thesis by (rule one)
      next
        case (goes_on err s3)
        then have t3: "snd s3 = snd s0" using t2 by (auto dest: LoadPage_trace)
        show ?thesis
        proof (cases err)
          case (Some e)
          with goes_on(2) t3 have "snd s' = snd s0" by (auto simp: ret_eq)
          then show ?thesis by (rule one)
        next
          case None
          with goes_on(2) have
            "andThen (must (MustElementsX env ''//div[@data-job-id]'')) (\<lambda>links.
             if links = [] then
               ret (Returned (ErrOther ''No job links found, stopping application process.''))
             else
               andThen (StartApplying_links env links IDs) (\<lambda>IDs'.
               andThen (StartApplying_jobs env profile IDs') (\<lambda>_.
                 StartApplying_loop fuel env profile position location jobsPerPage IDs'))) s3 = (r, s')"
            by simp
          then show ?thesis
          proof (cases rule: andThenE)
            case (panics p)
            with t3 have "snd s' = snd s0" by (auto dest: must_trace)
            then show ?thesis by (rule one)
          next
            case (goes_on links s4)
            then have t4: "snd s4 = snd s0" using t3 by (auto dest: must_trace)
            show ?thesis
            proof (cases "links = []")
              case True
              with goes_on(2) t4 have "snd s' = snd s0" by (auto simp: ret_eq)
              then show ?thesis by (rule one)
            next
              case False
              with goes_on(2) have
                "andThen (StartApplying_links env links IDs) (\<lambda>IDs'.
                 andThen (StartApplying_jobs env profile IDs') (\<lambda>_.
                   StartApplying_loop fuel env profile position location jobsPerPage IDs')) s4 = (r, s')"
                by simp
              then show ?thesis
              proof (cases rule: andThenE)
                case (panics p)
                with t4 have "snd s' = snd s0" by (auto dest: StartApplying_links_trace)
                then show ?thesis by (rule one)
              next
                case (goes_on IDs' s5)
                then have t5: "snd s5 = snd s0" using t4 by (auto dest: StartApplying_links_trace)
                from goes_on(2) show ?thesis
                proof (cases rule: andThenE)
                  case (panics p)
                  from StartApplying_jobs_trace [OF panics(1)] obtain evs1 where
                    "snd s' = snd s5 @ evs1" "searchOffsets evs1 = []" by auto
                  with t5 have "snd s' = snd s @ (SearchOpened jobsPerPage # evs1)"
                    "searchOffsets (SearchOpened jobsPerPage # evs1) = replicate (Suc 0) jobsPerPage"
                    by (simp_all add: s0_def)
                  then show ?thesis by (metis Suc_le_mono le0)
                next
                  case (goes_on u6 s6)
                  from StartApplying_jobs_trace [OF goes_on(1)] obtain evs1 where
                    e1: "snd s6 = snd s5 @ evs1" "searchOffsets evs1 = []" by auto
                  from Suc.IH [OF goes_on(2)] obtain evs2 n where
                    e2: "snd s' = snd s6 @ evs2" "n \<le> fuel" "searchOffsets evs2 = replicate n jobsPerPage"
                    by auto
                  from e1 e2 t5 have "snd s' = snd s @ (SearchOpened jobsPerPage # evs1 @ evs2)"
                    "searchOffsets (SearchOpened jobsPerPage # evs1 @ evs2) = replicate (Suc n) jobsPerPage"
                    "Suc n \<le> Suc fuel"
                    by (simp_all add: s0_def searchOffsets_append)
                  then show ?thesis by blast
                qed
              qed
            qed
          qed
        qed
      qed
    qed
  qed
qed

lemma StartApplying_offsets_zero:
  "\<exists>n \<le> fuel. searchOffsets (snd (snd (StartApplying fuel env profile (pg, [])))) = replicate n 0"
proof -
  obtain r s' where run: "StartApplying fuel env profile (pg, []) = (r, s')"
    by (cases "StartApplying fuel env profile (pg, [])")
  have "\<exists>n \<le> fuel. searchOffsets (snd s') = replicate n 0"
  proof (cases "Positions profile = []")
    case True
    with run show ?thesis by (auto simp: StartApplying_def raise_eq)
  next
    case False
    with run have
      "andThen (plain (Intn env (length (Positions profile)))) (\<lambda>i.
          if Locations profile = [] then raise IntnArgument
          else
            andThen (plain (Intn env (length (Locations profile)))) (\<lambda>k.
              StartApplying_loop fuel env profile
                (Positions profile ! (i mod length (Positions profile)))
                (Locations profile ! (k mod length (Locations profile)))
                0 [])) (pg, []) = (r, s')"
      by (simp add: StartApplying_def)
    then show ?thesis
    proof (cases rule: andThenE)
      case (panics p)
      then have "snd s' = []" by (auto dest: plain_trace)
      then show ?thesis by auto
    next
      case (goes_on i s1)
      then have t1: "snd s1 = []" by (auto dest: plain_trace)
      show ?thesis
      proof (cases "Locations profile = []")
        case True
        with goes_on(2) t1 show ?thesis by (auto simp: raise_eq)
      next
        case False
        with goes_on(2) have
          "andThen (plain (Intn env (length (Locations profile)))) (\<lambda>k.
              StartApplying_loop fuel env profile
                (Positions profile ! (i mod length (Positions profile)))
                (Locations profile ! (k mod length (Locations profile)))
                0 []) s1 = (r, s')"
          by simp
        then show ?thesis
        proof (cases rule: andThenE)
          case (panics p)
          with t1 have "snd s' = []" by (auto dest: plain_trace)
          then show ?thesis by auto
        next
          case (goes_on k s2)
          then have t2: "snd s2 = []" using t1 by (auto dest: plain_trace)
          from StartApplying_loop_offsets [OF goes_on(2)] t2 show ?thesis by auto
        qed
      qed
    qed
  qed
  with run show ?thesis by simp
qed

lemma scripted_LoadPage_scroll: "LoadPage_scroll (scriptedSession b) i s = (Inr None, s)"
proof (induction "14 - i" arbitrary: i)
  case 0
  then show ?case by (subst LoadPage_scroll.simps) (simp add: ret_def)
next
  case (Suc n)
  then have "i < 14" "n = 14 - Suc i" by simp_all
  with Suc.hyps(1) [of "Suc i"] show ?case
    by (subst LoadPage_scroll.simps) (simp add: scripted_defs)
qed

lemma scripted_LoadPage: "LoadPage (scriptedSession b) s = (Inr None, s)"
proof -
  have "andThen (LoadPage_scroll (scriptedSession b) 0) f s = f None s" for f :: "error option \<Rightarrow> (error option, wizardPage) prog"
    by (simp add: andThen_def scripted_LoadPage_scroll)
  then show ?thesis
    by (simp add: LoadPage_def scripted_defs)
qed

lemma scripted_GetEasyApplyButton:
  "GetEasyApplyButton (scriptedSession b) s =
     (Inr (False, Some (ErrOther ''Easy Apply button not found'')), s)"
  by (simp add: GetEasyApplyButton_def scripted_defs easyApplyXPath_def)

lemma scripted_jobs:
  "StartApplying_jobs (scriptedSession b) profile IDs s =
     (Inr (), (if IDs = [] then fst s else \<lparr>step = 0, focused = None\<rparr>, snd s))"
proof (induction IDs arbitrary: s)
  case Nil
  show ?case by (simp add: ret_def)
next
  case (Cons jobID rest)
  have nav: "must (MustNavigate (scriptedSession b) url) s = (Inr (), (\<lparr>step = 0, focused = None\<rparr>, snd s))"
    for url and s :: "wizardPage run"
    by (simp add: scripted_defs)
  have sl: "plain (Sleep (scriptedSession b) lo hi) s = (Inr (), s)" for lo hi and s :: "wizardPage run"
    by (simp add: scripted_defs)
  show ?case
    by (simp add: andThen_def nav sl scripted_GetEasyApplyButton Cons.IH)
qed

lemma posting_link:
  "ExtractJobID (parseTable linkTable) ''/jobs/view/3847562910/'' = Inr (3847562910, True)"
  by (simp add: ExtractJobID_def parseTable_def linkTable_def pathURL_def Trim_def Atoi_def
      isDigit_def digitVal_def maxInt_def minInt_def)

lemma scripted_links:
  "StartApplying_links (scriptedSession b) [20] IDs s = (Inr (IDs @ [3847562910]), s)"
  using posting_link by (simp add: scripted_defs)

lemma scripted_loop_step:
  "StartApplying_loop (Suc fuel) (scriptedSession b) profile position location n IDs s =
   StartApplying_loop fuel (scriptedSession b) profile position location n (IDs @ [3847562910])
     (\<lparr>step = 0, focused = None\<rparr>, snd s @ [SearchOpened n])"
proof -
  have nav: "must (MustNavigate (scriptedSession b) url) s = (Inr (), (\<lparr>step = 0, focused = None\<rparr>, snd s))"
    for url and s :: "wizardPage run"
    by (simp add: scripted_defs)
  have sl: "plain (Sleep (scriptedSession b) lo hi) s = (Inr (), s)" for lo hi and s :: "wizardPage run"
    by (simp add: scripted_defs)
  have mx: "must (MustElementsX (scriptedSession b) ''//div[@data-job-id]'') s = (Inr [20], s)"
    for s :: "wizardPage run"
    by (simp add: scripted_defs)
  show ?thesis
    by (simp add: andThen_emit)
       (simp add: andThen_def nav sl mx scripted_LoadPage scripted_links scripted_jobs
          del: StartApplying_links.simps StartApplying_jobs.simps)
qed

text \<open>
  C6. The offset does not grow: \<open>jobsPerPage\<close> is set to 0 before the loop and never
  changed, so every opening of the search results uses \<open>start=0\<close> (lemma
  \<open>StartApplying_offsets_zero\<close>, for every session). In the scripted session the first two
  iterations open the search results at the offsets 0 and 0.
\<close>

theorem StartApplying_offset_repeats:
  "searchOffsets (snd (snd (StartApplying 2 (scriptedSession True) exampleProfile (firstStep, []))))
   = [0, 0]"
proof -
  have i: "plain (Intn (scriptedSession True) n) s = (Inr 0, s)" for n and s :: "wizardPage run"
    by (simp add: scripted_defs)
  have "StartApplying (Suc (Suc 0)) (scriptedSession True) exampleProfile (firstStep, [])
        = (Inr StillRunning, (\<lparr>step = 0, focused = None\<rparr>, [SearchOpened 0, SearchOpened 0]))"
    by (simp add: StartApplying_def exampleProfile_def andThen_def i scripted_loop_step ret_def
        del: StartApplying_loop.simps(2))
  then show ?thesis
    by (simp add: numeral_2_eq_2)
qed

end
